theory Spec2Isabelle
  imports Complex_Main
begin

section \<open>Numeric conventions\<close>

text \<open>
  The estimator works on IEEE floating-point arrays. The embedding of
  \<^verbatim>\<open>project_to_basis\<close> and \<^verbatim>\<open>find_unique_edges\<close> uses exact real and complex
  arithmetic for finite values (rounding is not modelled) and makes the one special
  value the code writes on purpose, NaN, explicit: an array entry that the code may
  overwrite with \<^verbatim>\<open>np.nan\<close> has type \<open>'a fl\<close>. The quotient of an accumulated sum by
  a mode count has type \<open>'a quot\<close>: a finite value, NaN (\<open>0/0\<close> and \<open>NaN/n\<close>) or an
  infinity (a nonzero sum over a zero count).
\<close>

datatype 'a fl = Fin 'a | NaN

datatype 'a quot = Quot 'a | QNaN | QInf

fun fl_add :: "'a::plus fl \<Rightarrow> 'a fl \<Rightarrow> 'a fl" where
  "fl_add (Fin a) (Fin b) = Fin (a + b)"
| "fl_add _ _ = NaN"

fun fl_div :: "'a::field fl \<Rightarrow> nat \<Rightarrow> 'a quot" where
  "fl_div NaN n = QNaN"
| "fl_div (Fin a) n =
     (if n = 0 then (if a = 0 then QNaN else QInf) else Quot (a / of_nat n))"

datatype error = ValueError | IndexError | ZeroDivisionError

section \<open>The binning and projection engine: \<^verbatim>\<open>project_to_basis\<close>\<close>

subsection \<open>The field and its modes\<close>

text \<open>
  A pmesh field as far as \<^verbatim>\<open>project_to_basis\<close> reads it: its kind
  (\<^verbatim>\<open>isinstance(y3d, RealField)\<close>), the Hermitian compression flag, box size and mesh
  size per axis, the three broadcastable coordinate arrays \<^verbatim>\<open>y3d.x\<close> (one list per
  axis) and the values \<^verbatim>\<open>y3d[islab][i1][i2]\<close>. One process is modelled, so that
  \<^verbatim>\<open>comm.allreduce\<close> is the identity.
\<close>

record field =
  is_real :: bool
  compressed :: bool
  BoxSize :: "real list"
  Nmesh :: "nat list"
  x0s :: "real list"
  x1s :: "real list"
  x2s :: "real list"
  y3d :: "complex list list list"

text \<open>A mode of a slab: its three coordinates and the value of the field there.\<close>

type_synonym mode = "real \<times> real \<times> real \<times> complex"

definition slab :: "field \<Rightarrow> nat \<Rightarrow> mode list" where
  "slab f islab =
     concat (map (\<lambda>i1. map (\<lambda>i2. (x0s f ! islab, x1s f ! i1, x2s f ! i2, y3d f ! islab ! i1 ! i2))
                           [0..<length (x2s f)])
                 [0..<length (x1s f)])"

definition cellsize :: "field \<Rightarrow> real list" where
  "cellsize f =
     (if is_real f then map2 (\<lambda>b n. b / real n) (BoxSize f) (Nmesh f)
      else map (\<lambda>b. 2 * pi / b) (BoxSize f))"

definition mincell :: "field \<Rightarrow> real" where
  "mincell f = Min (set (cellsize f))"

definition xvec :: "mode \<Rightarrow> real list" where
  "xvec m = (case m of (k0, k1, k2, y) \<Rightarrow> [k0, k1, k2])"

definition yval :: "mode \<Rightarrow> complex" where
  "yval m = (case m of (k0, k1, k2, y) \<Rightarrow> y)"

definition xnorm :: "mode \<Rightarrow> real" where
  "xnorm m = sqrt (sum_list (map (\<lambda>xx. xx ^ 2) (xvec m)))"

definition mask_zero :: "real \<Rightarrow> mode \<Rightarrow> bool" where
  "mask_zero mc m \<longleftrightarrow> xnorm m < mc / 2"

definition mu_of :: "real list \<Rightarrow> real \<Rightarrow> mode \<Rightarrow> real" where
  "mu_of los mc m =
     (let d = sum_list (map2 (\<lambda>xx ll. xx * ll) (xvec m) los)
      in if mask_zero mc m then d else d / xnorm m)"

text \<open>\<^verbatim>\<open>x3d[-1][0] > 0.\<close>: positive frequency along the compression (last) axis.\<close>

definition nonsingular :: "mode \<Rightarrow> bool" where
  "nonsingular m \<longleftrightarrow> (case m of (k0, k1, k2, y) \<Rightarrow> k2 > 0)"

subsection \<open>Bin indices\<close>

text \<open>
  \<^verbatim>\<open>np.digitize(x, bins, right=False)\<close> for monotonically increasing \<^verbatim>\<open>bins\<close> (the
  docstring assumes sorted edges): the number of leading bins that are \<open>\<le> x\<close>, so that
  index \<open>i\<close> means \<^verbatim>\<open>bins[i-1] <= x < bins[i]\<close>, \<open>0\<close> is below the first edge and
  \<^verbatim>\<open>len(bins)\<close> at or above the last.
\<close>

definition digitize :: "real \<Rightarrow> real list \<Rightarrow> nat" where
  "digitize x bins = length (takeWhile (\<lambda>e. e \<le> x) bins)"

text \<open>\<^verbatim>\<open>nx = len(xedges) - 1\<close>, \<^verbatim>\<open>nmu = len(muedges) - 1\<close> (edges are non-empty).\<close>

definition nbins :: "real list \<Rightarrow> nat" where
  "nbins edges = length edges - 1"

definition dig_x :: "real list \<Rightarrow> real \<Rightarrow> mode \<Rightarrow> nat" where
  "dig_x xedges mc m =
     (if mask_zero mc m then nbins xedges + 2 else digitize (xnorm m) xedges)"

text \<open>
  The three assignments to \<^verbatim>\<open>dig_mu\<close> in source order: digitize, then the last edge
  inclusive, then the zero mask; a later assignment overrides an earlier one.
\<close>

definition dig_mu :: "real list \<Rightarrow> real \<Rightarrow> mode \<Rightarrow> real \<Rightarrow> nat" where
  "dig_mu muedges mc m mu =
     (if mask_zero mc m then nbins muedges + 2
      else if mu = last muedges then nbins muedges
      else digitize mu muedges)"

text \<open>\<^verbatim>\<open>np.ravel_multi_index([dig_x, dig_mu], (nx + 3, nmu + 3))\<close>.\<close>

definition ravel :: "real list \<Rightarrow> nat \<Rightarrow> nat \<Rightarrow> nat" where
  "ravel muedges i j = i * (nbins muedges + 3) + j"

definition multi_index :: "real list \<Rightarrow> real list \<Rightarrow> real \<Rightarrow> mode \<Rightarrow> real \<Rightarrow> nat" where
  "multi_index xedges muedges mc m mu =
     ravel muedges (dig_x xedges mc m) (dig_mu muedges mc m mu)"

subsection \<open>Accumulation over slabs\<close>

text \<open>
  \<^verbatim>\<open>np.bincount(idx, weights=w, minlength=n)\<close> when every index is below \<open>n\<close>: entry
  \<open>k\<close> is the sum of the weights whose index is \<open>k\<close>; without weights it counts.
  \<^verbatim>\<open>arr[mask]\<close> with a boolean mask keeps the entries where the mask holds, in order.
\<close>

definition bincount :: "nat list \<Rightarrow> 'a::comm_monoid_add list \<Rightarrow> nat \<Rightarrow> 'a list" where
  "bincount idx w n =
     map (\<lambda>k. sum_list (map snd (filter (\<lambda>p. fst p = k) (zip idx w)))) [0..<n]"

definition bincount_n :: "nat list \<Rightarrow> nat \<Rightarrow> nat list" where
  "bincount_n idx n = map (\<lambda>k. length (filter (\<lambda>i. i = k) idx)) [0..<n]"

definition select :: "bool list \<Rightarrow> 'a list \<Rightarrow> 'a list" where
  "select msk xs = map snd (filter fst (zip msk xs))"

text \<open>
  \<^verbatim>\<open>scipy.special.legendre(ell)\<close>, the Legendre polynomial of degree \<open>ell\<close>, by Bonnet's
  recursion; \<open>weight ell mu\<close> is \<^verbatim>\<open>(2. * ell + 1.) * legpoly[ill](mu)\<close>.
\<close>

fun legendre :: "nat \<Rightarrow> real \<Rightarrow> real" where
  "legendre 0 x = 1"
| "legendre (Suc 0) x = x"
| "legendre (Suc (Suc n)) x =
     ((2 * real n + 3) * x * legendre (Suc n) x - (real n + 1) * legendre n x) / (real n + 2)"

definition weight :: "int \<Rightarrow> real \<Rightarrow> real" where
  "weight ell mu = (2 * real_of_int ell + 1) * legendre (nat ell) mu"

text \<open>The four histogram buffers, flattened: \<open>(nx + 3) * (nmu + 3)\<close> entries each.\<close>

record acc =
  nsum :: "nat list"
  xsum :: "real list"
  musum :: "real list"
  ysum :: "complex list list"

definition hsize :: "real list \<Rightarrow> real list \<Rightarrow> nat" where
  "hsize xedges muedges = (nbins xedges + 3) * (nbins muedges + 3)"

definition acc0 :: "real list \<Rightarrow> real list \<Rightarrow> int list \<Rightarrow> acc" where
  "acc0 xedges muedges unique_ells =
     \<lparr>nsum = replicate (hsize xedges muedges) 0,
      xsum = replicate (hsize xedges muedges) 0,
      musum = replicate (hsize xedges muedges) 0,
      ysum = replicate (length unique_ells) (replicate (hsize xedges muedges) 0)\<rparr>"

text \<open>
  \<^verbatim>\<open>hermitian_symmetric = y3d.compressed; if antisymmetric: hermitian_symmetric *= -1\<close>:
  \<open>0\<close> for an uncompressed field, else \<open>1\<close> or \<open>-1\<close>.
\<close>

definition hermitian_symmetric :: "field \<Rightarrow> bool \<Rightarrow> int" where
  "hermitian_symmetric f antisymmetric =
     (if antisymmetric then (if compressed f then 1 else 0) * (-1)
      else (if compressed f then 1 else 0))"

text \<open>
  One turn of the loop \<^verbatim>\<open>for imu, mu in enumerate(mus)\<close> on the modes \<open>ms\<close> of a slab;
  \<open>mus\<close> holds the angle cosines of this turn for all modes of the slab. In the mirror
  turn (\<^verbatim>\<open>hermitian_symmetric and imu\<close>) the index, the norm, the cosine and the field
  values are restricted to the \<^verbatim>\<open>nonsingular\<close> modes, and the field value is conjugated
  and multiplied by \<^verbatim>\<open>hermitian_symmetric\<close>. The real and imaginary parts that the
  source accumulates one after the other are one complex sum here.
\<close>

definition slab_pass ::
  "real list \<Rightarrow> real list \<Rightarrow> real \<Rightarrow> int list \<Rightarrow> int \<Rightarrow> mode list \<Rightarrow> nat \<Rightarrow> real list \<Rightarrow> acc \<Rightarrow> acc" where
  "slab_pass xedges muedges mc unique_ells hs ms imu mus a =
     (let n = hsize xedges muedges;
          idx0 = map2 (multi_index xedges muedges mc) ms mus;
          mirror = (hs \<noteq> 0 \<and> imu \<noteq> 0);
          msk = map nonsingular ms;
          idx = (if mirror then select msk idx0 else idx0);
          xn = (if mirror then select msk (map xnorm ms) else map xnorm ms);
          mu = (if mirror then select msk mus else mus);
          weightedy3d = (\<lambda>ell.
            if mirror
            then map2 (\<lambda>w y. of_int hs * of_real w * cnj y) (map (weight ell) mu)
                   (select msk (map yval ms))
            else map2 (\<lambda>w y. of_real w * y) (map (weight ell) mu) (map yval ms))
      in \<lparr>nsum = map2 (+) (nsum a) (bincount_n idx n),
          xsum = map2 (+) (xsum a) (bincount idx xn n),
          musum = map2 (+) (musum a) (bincount idx mu n),
          ysum = map2 (\<lambda>ell row. map2 (+) row (bincount idx (weightedy3d ell) n))
                   unique_ells (ysum a)\<rparr>)"

text \<open>One slab: an empty slab is skipped; a compressed field gets the second turn.\<close>

definition slab_step ::
  "real list \<Rightarrow> real list \<Rightarrow> real list \<Rightarrow> real \<Rightarrow> int list \<Rightarrow> int \<Rightarrow> mode list \<Rightarrow> acc \<Rightarrow> acc" where
  "slab_step xedges muedges los mc unique_ells hs ms a =
     (if ms = [] then a
      else let mu = map (mu_of los mc) ms;
               mus = (if hs = 0 then [mu] else [mu, map uminus mu])
           in fold (\<lambda>(imu, mu'). slab_pass xedges muedges mc unique_ells hs ms imu mu')
                (enumerate 0 mus) a)"

definition unique_ells_of :: "int list \<Rightarrow> int list" where
  "unique_ells_of ells = sort (remdups (0 # ells))"

definition accumulate ::
  "field \<Rightarrow> real list \<Rightarrow> real list \<Rightarrow> real list \<Rightarrow> int list \<Rightarrow> bool \<Rightarrow> acc" where
  "accumulate f xedges muedges los unique_ells antisymmetric =
     fold (\<lambda>islab. slab_step xedges muedges los (mincell f) unique_ells
                      (hermitian_symmetric f antisymmetric) (slab f islab))
       [0..<length (x0s f)] (acc0 xedges muedges unique_ells)"

subsection \<open>After the reduction: Nyquist mask, zero fold, averages\<close>

record hist =
  nS :: "nat list"
  xS :: "real fl list"
  muS :: "real fl list"
  yS :: "complex fl list list"

text \<open>\<^verbatim>\<open>xmax = y3d.Nmesh // 2 * cellsize\<close> and \<^verbatim>\<open>np.flatnonzero(xedges >= np.min(xmax))\<close>.\<close>

definition nyq :: "field \<Rightarrow> real" where
  "nyq f = Min (set (map2 (\<lambda>n c. real (n div 2) * c) (Nmesh f) (cellsize f)))"

definition mask_beyond_nyq :: "field \<Rightarrow> real list \<Rightarrow> nat list" where
  "mask_beyond_nyq f xedges = filter (\<lambda>j. xedges ! j \<ge> nyq f) [0..<length xedges]"

text \<open>\<^verbatim>\<open>arr[rows] = v\<close> on the array seen as \<open>(nx + 3, ncol)\<close>: row of flat index \<open>k\<close> is \<open>k div ncol\<close>.\<close>

definition set_rows :: "nat \<Rightarrow> nat list \<Rightarrow> 'a \<Rightarrow> 'a list \<Rightarrow> 'a list" where
  "set_rows ncol rows v arr =
     map (\<lambda>k. if k div ncol \<in> set rows then v else arr ! k) [0..<length arr]"

definition masked_sums :: "field \<Rightarrow> real list \<Rightarrow> real list \<Rightarrow> acc \<Rightarrow> hist" where
  "masked_sums f xedges muedges a =
     (let rows = mask_beyond_nyq f xedges; ncol = nbins muedges + 3
      in \<lparr>nS = set_rows ncol rows 0 (nsum a),
          xS = set_rows ncol rows NaN (map Fin (xsum a)),
          muS = set_rows ncol rows NaN (map Fin (musum a)),
          yS = map (\<lambda>row. set_rows ncol rows NaN (map Fin row)) (ysum a)\<rparr>)"

text \<open>The flat index of the dedicated zero bin and of the bin of the literal value \<open>0\<close>.\<close>

definition zero_bin :: "real list \<Rightarrow> real list \<Rightarrow> nat" where
  "zero_bin xedges muedges = ravel muedges (nbins xedges + 2) (nbins muedges + 2)"

definition dig_zero :: "real list \<Rightarrow> real list \<Rightarrow> nat" where
  "dig_zero xedges muedges = ravel muedges (digitize 0 xedges) (digitize 0 muedges)"

definition fold_zero :: "real list \<Rightarrow> real list \<Rightarrow> bool \<Rightarrow> hist \<Rightarrow> hist" where
  "fold_zero xedges muedges exclude_zero s =
     (if exclude_zero then s
      else let kd = dig_zero xedges muedges; kz = zero_bin xedges muedges
           in \<lparr>nS = (nS s)[kd := nS s ! kd + nS s ! kz],
               xS = (xS s)[kd := fl_add (xS s ! kd) (xS s ! kz)],
               muS = (muS s)[kd := fl_add (muS s ! kd) (muS s ! kz)],
               yS = map (\<lambda>row. row[kd := fl_add (row ! kd) (row ! kz)]) (yS s)\<rparr>)"

record result2d =
  xmean2d :: "real quot list list"
  mumean2d :: "real quot list list"
  y2d :: "complex quot list list"
  n2d :: "nat list list"
  zero2d :: "complex fl"

record result_poles =
  xmean1d :: "real quot list"
  poles :: "complex quot list list"
  n1d :: "nat list"
  poles_zero :: "complex fl list"

definition fl_sum :: "'a::comm_monoid_add fl list \<Rightarrow> 'a fl" where
  "fl_sum xs = fold (\<lambda>x s. fl_add s x) xs (Fin 0)"

text \<open>\<^verbatim>\<open>xs.index(x)\<close> for an element that occurs in the list.\<close>

definition index_of :: "'a list \<Rightarrow> 'a \<Rightarrow> nat" where
  "index_of xs x = length (takeWhile (\<lambda>y. y \<noteq> x) xs)"

text \<open>Entry \<open>[i, j]\<close> of a buffer seen as an \<open>(nx + 3, nmu + 3)\<close> array.\<close>

definition cell :: "real list \<Rightarrow> 'a list \<Rightarrow> nat \<Rightarrow> nat \<Rightarrow> 'a" where
  "cell muedges arr i j = arr ! ravel muedges i j"

text \<open>
  The slice \<^verbatim>\<open>sl = slice(1, -2)\<close> on an axis of length \<open>n + 3\<close> keeps the indices
  \<open>1..n\<close>: rows \<open>1..nx\<close> and columns \<open>1..nmu\<close>.
\<close>

definition inner :: "nat \<Rightarrow> nat list" where
  "inner n = [1..<n + 1]"

definition averages2d :: "real list \<Rightarrow> real list \<Rightarrow> hist \<Rightarrow> result2d" where
  "averages2d xedges muedges s =
     (let rows = inner (nbins xedges); cols = inner (nbins muedges)
      in \<lparr>xmean2d = map (\<lambda>i. map (\<lambda>j. fl_div (cell muedges (xS s) i j) (cell muedges (nS s) i j)) cols) rows,
          mumean2d = map (\<lambda>i. map (\<lambda>j. fl_div (cell muedges (muS s) i j) (cell muedges (nS s) i j)) cols) rows,
          y2d = map (\<lambda>i. map (\<lambda>j. fl_div (cell muedges (yS s ! 0) i j) (cell muedges (nS s) i j)) cols) rows,
          n2d = map (\<lambda>i. map (\<lambda>j. cell muedges (nS s) i j) cols) rows,
          zero2d = yS s ! 0 ! zero_bin xedges muedges\<rparr>)"

definition averages_poles ::
  "real list \<Rightarrow> real list \<Rightarrow> int list \<Rightarrow> int list \<Rightarrow> hist \<Rightarrow> result_poles" where
  "averages_poles xedges muedges unique_ells ells s =
     (let rows = inner (nbins xedges); cols = inner (nbins muedges);
          n1 = (\<lambda>i. sum_list (map (\<lambda>j. cell muedges (nS s) i j) cols));
          pick = map (\<lambda>ell. index_of unique_ells ell) ells
      in \<lparr>xmean1d = map (\<lambda>i. fl_div (fl_sum (map (\<lambda>j. cell muedges (xS s) i j) cols)) (n1 i)) rows,
          poles = map (\<lambda>ill. map (\<lambda>i. fl_div (fl_sum (map (\<lambda>j. cell muedges (yS s ! ill) i j) cols)) (n1 i)) rows) pick,
          n1d = map n1 rows,
          poles_zero = map (\<lambda>ill. yS s ! ill ! zero_bin xedges muedges) pick\<rparr>)"

text \<open>The buffers after the loop over slabs, the reduction and the Nyquist mask.\<close>

definition reduced_sums ::
  "field \<Rightarrow> real list \<Rightarrow> real list \<Rightarrow> real list \<Rightarrow> int list \<Rightarrow> bool \<Rightarrow> hist" where
  "reduced_sums f xedges muedges los unique_ells antisymmetric =
     masked_sums f xedges muedges (accumulate f xedges muedges los unique_ells antisymmetric)"

definition the_ells :: "int list option \<Rightarrow> int list" where
  "the_ells ells = (case ells of None \<Rightarrow> [] | Some l \<Rightarrow> l)"

text \<open>
  The whole function. \<^verbatim>\<open>ells\<close> is \<open>None\<close> or a list of multipole orders
  (\<^verbatim>\<open>ells = ells or []\<close>); a negative
  order raises \<^verbatim>\<open>ValueError\<close> before anything is accumulated.
\<close>

definition project_to_basis ::
  "field \<Rightarrow> real list \<Rightarrow> real list \<Rightarrow> real list \<Rightarrow> int list option \<Rightarrow> bool \<Rightarrow> bool \<Rightarrow>
   error + (result2d \<times> result_poles option)" where
  "project_to_basis f xedges muedges los ells antisymmetric exclude_zero =
     (let return_poles = (ells \<noteq> None);
          ells' = the_ells ells;
          unique_ells = unique_ells_of ells'
      in if \<exists>ell \<in> set unique_ells. ell < 0 then Inl ValueError
         else let s = fold_zero xedges muedges exclude_zero
                        (reduced_sums f xedges muedges los unique_ells antisymmetric)
              in Inr (averages2d xedges muedges s,
                      if return_poles then Some (averages_poles xedges muedges unique_ells ells' s)
                      else None))"

subsection \<open>Notions used to state the results\<close>

text \<open>All modes of the local field, slab after slab.\<close>

definition all_modes :: "field \<Rightarrow> mode list" where
  "all_modes f = concat (map (slab f) [0..<length (x0s f)])"

text \<open>The flat histogram index of a mode in the first turn and in the mirror turn.\<close>

definition first_bin :: "real list \<Rightarrow> real list \<Rightarrow> real list \<Rightarrow> real \<Rightarrow> mode \<Rightarrow> nat" where
  "first_bin xe me los mc m = multi_index xe me mc m (mu_of los mc m)"

definition mirror_bin :: "real list \<Rightarrow> real list \<Rightarrow> real list \<Rightarrow> real \<Rightarrow> mode \<Rightarrow> nat" where
  "mirror_bin xe me los mc m = multi_index xe me mc m (- mu_of los mc m)"

text \<open>A buffer given by its entries, and the accumulator made of four such buffers.\<close>

definition tab :: "nat \<Rightarrow> (nat \<Rightarrow> 'a) \<Rightarrow> 'a list" where
  "tab n F = map F [0..<n]"

definition mk_acc ::
  "nat \<Rightarrow> int list \<Rightarrow> (nat \<Rightarrow> nat) \<Rightarrow> (nat \<Rightarrow> real) \<Rightarrow> (nat \<Rightarrow> real) \<Rightarrow> (int \<Rightarrow> nat \<Rightarrow> complex) \<Rightarrow> acc" where
  "mk_acc n ue N X M Y =
     \<lparr>nsum = tab n N, xsum = tab n X, musum = tab n M, ysum = map (\<lambda>ell. tab n (Y ell)) ue\<rparr>"

text \<open>The modes a turn visits, and what it adds for one of them to the field sum.\<close>

definition visited :: "int \<Rightarrow> nat \<Rightarrow> mode list \<Rightarrow> mode list" where
  "visited hs imu ms = (if hs \<noteq> 0 \<and> imu \<noteq> 0 then filter nonsingular ms else ms)"

definition yweight :: "int \<Rightarrow> nat \<Rightarrow> int \<Rightarrow> real \<Rightarrow> complex \<Rightarrow> complex" where
  "yweight hs imu ell mu y =
     (if hs \<noteq> 0 \<and> imu \<noteq> 0 then of_int hs * of_real (weight ell mu) * cnj y
      else of_real (weight ell mu) * y)"

text \<open>
  What the modes \<open>ms\<close> add to entry \<open>k\<close> of a buffer: \<open>g1\<close> of every mode whose first
  index is \<open>k\<close>, and for a compressed field \<open>g2\<close> of every nonsingular mode whose mirror
  index is \<open>k\<close>.
\<close>

definition contrib ::
  "int \<Rightarrow> (mode \<Rightarrow> nat) \<Rightarrow> (mode \<Rightarrow> nat) \<Rightarrow> (mode \<Rightarrow> 'a) \<Rightarrow> (mode \<Rightarrow> 'a) \<Rightarrow> nat \<Rightarrow> mode list
   \<Rightarrow> 'a::comm_monoid_add" where
  "contrib hs I1 I2 g1 g2 k ms =
     sum_list (map g1 (filter (\<lambda>m. I1 m = k) ms)) +
     (if hs = 0 then 0 else sum_list (map g2 (filter (\<lambda>m. I2 m = k) (filter nonsingular ms))))"

text \<open>
  A small compressed Fourier field used in the examples: one slab, two modes along the
  compression axis, unit fundamental frequency.
\<close>

definition f0 :: field where
  "f0 = \<lparr>is_real = False, compressed = True, BoxSize = [2 * pi, 2 * pi, 2 * pi],
         Nmesh = [2, 2, 2], x0s = [0], x1s = [0], x2s = [0, 1], y3d = [[[3, \<i>]]]\<rparr>"

text \<open>
  The Nyquist frequency in the words of the specification: \<open>pi * N / boxsize\<close> per axis,
  minimum over the axes. The code's own threshold is \<open>nyq\<close> above.
\<close>

definition nyquist_spec :: "field \<Rightarrow> real" where
  "nyquist_spec f = Min (set (map2 (\<lambda>n L. pi * real n / L) (Nmesh f) (BoxSize f)))"

text \<open>
  A real-space field: box size \<open>8\<close> and \<open>4\<close> cells per axis, so cell size \<open>2\<close>, with
  the coordinates pmesh gives such a mesh and the value \<open>1\<close> everywhere.
\<close>

definition fR :: field where
  "fR = \<lparr>is_real = True, compressed = False, BoxSize = [8, 8, 8], Nmesh = [4, 4, 4],
         x0s = [0, 2, -4, -2], x1s = [0, 2, -4, -2], x2s = [0, 2, -4, -2],
         y3d = replicate 4 (replicate 4 (replicate 4 1))\<rparr>"

text \<open>
  A compressed Fourier field on a box four times longer along the last axis, so that
  the fundamental frequencies are \<open>1\<close>, \<open>1\<close> and \<open>1 / 4\<close>: one slab, and the modes
  \<open>0\<close> and \<open>1 / 4\<close> along the last axis.
\<close>

definition f3 :: field where
  "f3 = \<lparr>is_real = False, compressed = True, BoxSize = [2 * pi, 2 * pi, 8 * pi],
         Nmesh = [4, 4, 4], x0s = [0], x1s = [0], x2s = [0, 1 / 4], y3d = [[[3, \<i>]]]\<rparr>"

section \<open>The power-spectrum statistics: \<^verbatim>\<open>get_power\<close> and \<^verbatim>\<open>rebin\<close>\<close>

subsection \<open>Floating-point operations as parameters\<close>

text \<open>
  The statistics arrays hold floating-point numbers, real or complex, NaN and
  infinities included. Their arithmetic is a parameter of the model: \<open>f_add\<close>,
  \<open>f_sub\<close>, \<open>f_mul\<close> and \<open>f_div\<close> are numpy's elementwise \<^verbatim>\<open>+\<close>, \<^verbatim>\<open>-\<close>, \<^verbatim>\<open>*\<close> and
  \<^verbatim>\<open>/\<close>, \<open>f_of_nat\<close> converts a mode count, \<open>f_re\<close> and \<open>f_im\<close> are \<^verbatim>\<open>.real\<close> and
  \<^verbatim>\<open>.imag\<close>, \<open>f_isnan\<close> is \<^verbatim>\<open>np.isnan\<close> and \<open>f_zero\<close> is \<^verbatim>\<open>0.\<close>. What is proved
  for every such record holds for IEEE arithmetic with its rounding.
\<close>

record 'v arith =
  f_add :: "'v \<Rightarrow> 'v \<Rightarrow> 'v"
  f_sub :: "'v \<Rightarrow> 'v \<Rightarrow> 'v"
  f_mul :: "'v \<Rightarrow> 'v \<Rightarrow> 'v"
  f_div :: "'v \<Rightarrow> 'v \<Rightarrow> 'v"
  f_of_nat :: "nat \<Rightarrow> 'v"
  f_re :: "'v \<Rightarrow> 'v"
  f_im :: "'v \<Rightarrow> 'v"
  f_isnan :: "'v \<Rightarrow> bool"
  f_zero :: "'v"

text \<open>
  One concrete arithmetic for the examples: real numbers without rounding, with the
  IEEE special values and their rules (\<open>x / 0\<close> is an infinity for \<open>x \<noteq> 0\<close>, \<open>0 / 0\<close>,
  \<open>inf - inf\<close> and \<open>0 * inf\<close> are NaN, NaN is absorbing). Counts are non-negative, so a
  zero divisor is \<open>+0\<close>.
\<close>

datatype xr = XFin real | XPInf | XNInf | XNaN

fun xr_neg :: "xr \<Rightarrow> xr" where
  "xr_neg (XFin a) = XFin (- a)"
| "xr_neg XPInf = XNInf"
| "xr_neg XNInf = XPInf"
| "xr_neg XNaN = XNaN"

fun xr_add :: "xr \<Rightarrow> xr \<Rightarrow> xr" where
  "xr_add (XFin a) (XFin b) = XFin (a + b)"
| "xr_add XNaN _ = XNaN"
| "xr_add _ XNaN = XNaN"
| "xr_add XPInf XNInf = XNaN"
| "xr_add XNInf XPInf = XNaN"
| "xr_add XPInf _ = XPInf"
| "xr_add _ XPInf = XPInf"
| "xr_add XNInf _ = XNInf"
| "xr_add _ XNInf = XNInf"

definition xr_sub :: "xr \<Rightarrow> xr \<Rightarrow> xr" where
  "xr_sub a b = xr_add a (xr_neg b)"

text \<open>\<open>xr_sign\<close>: \<open>1\<close> for a positive value, \<open>-1\<close> for a negative one, \<open>0\<close> for zero.\<close>

fun xr_sign :: "xr \<Rightarrow> int" where
  "xr_sign (XFin a) = (if a > 0 then 1 else if a < 0 then - 1 else 0)"
| "xr_sign XPInf = 1"
| "xr_sign XNInf = - 1"
| "xr_sign XNaN = 0"

definition xr_inf :: "int \<Rightarrow> xr" where
  "xr_inf s = (if s > 0 then XPInf else if s < 0 then XNInf else XNaN)"

fun xr_mul :: "xr \<Rightarrow> xr \<Rightarrow> xr" where
  "xr_mul (XFin a) (XFin b) = XFin (a * b)"
| "xr_mul XNaN _ = XNaN"
| "xr_mul _ XNaN = XNaN"
| "xr_mul a b = xr_inf (xr_sign a * xr_sign b)"

fun xr_div :: "xr \<Rightarrow> xr \<Rightarrow> xr" where
  "xr_div (XFin a) (XFin b) = (if b = 0 then xr_inf (xr_sign (XFin a)) else XFin (a / b))"
| "xr_div XNaN _ = XNaN"
| "xr_div _ XNaN = XNaN"
| "xr_div (XFin a) _ = XFin 0"
| "xr_div a (XFin b) = xr_inf (xr_sign a * (if b < 0 then - 1 else 1))"
| "xr_div _ _ = XNaN"

definition xr_arith :: "xr arith" where
  "xr_arith = \<lparr>f_add = xr_add, f_sub = xr_sub, f_mul = xr_mul, f_div = xr_div,
                f_of_nat = (\<lambda>n. XFin (real n)), f_re = (\<lambda>x. x), f_im = (\<lambda>x. XFin 0),
                f_isnan = (\<lambda>x. x = XNaN), f_zero = XFin 0\<rparr>"

subsection \<open>The statistics instance\<close>

text \<open>
  The attributes of \<^verbatim>\<open>BasePowerSpectrumStatistics\<close> that \<^verbatim>\<open>get_power\<close> and \<^verbatim>\<open>rebin\<close>
  read or write. Arrays over the bins are flattened in row-major order; the bin shape
  comes from \<open>edges\<close>. \<open>power_nonorm\<close> and \<open>power_direct_nonorm\<close> are lists of rows, one
  row per multipole for \<^verbatim>\<open>PowerSpectrumMultipoles\<close> (whose orders are \<open>ells\<close>), and a
  single row for wedges, which have no extra axis; \<open>power_zero_nonorm\<close> has one entry
  per row. \<open>iscomplexobj\<close> is \<^verbatim>\<open>np.iscomplexobj(power_nonorm)\<close>.
\<close>

record 'v stat =
  edges :: "real list list"
  modes :: "'v list list"
  power_nonorm :: "'v list list"
  power_zero_nonorm :: "'v list"
  power_direct_nonorm :: "'v list list"
  nmodes :: "nat list"
  wnorm :: "'v"
  shotnoise_nonorm :: "'v"
  ells :: "int list"
  iscomplexobj :: bool

text \<open>\<^verbatim>\<open>shape\<close>: \<^verbatim>\<open>tuple(len(edges) - 1 for edges in self.edges)\<close>, for non-empty edges.\<close>

definition shape :: "'v stat \<Rightarrow> nat list" where
  "shape s = map nbins (edges s)"

fun ravel_nd :: "nat list \<Rightarrow> nat list \<Rightarrow> nat" where
  "ravel_nd (n # ns) (i # is) = i * prod_list ns + ravel_nd ns is"
| "ravel_nd _ _ = 0"

text \<open>
  \<^verbatim>\<open>dig_zero = tuple(np.digitize(0., edges, right=False) - 1 for edges in self.edges)\<close>
  and the test \<^verbatim>\<open>all(0 <= dig_zero[ii] < self.shape[ii] ...)\<close>: the flat index of the
  bin that contains \<open>0\<close> on every axis, if there is one.
\<close>

definition zero_index :: "'v stat \<Rightarrow> nat option" where
  "zero_index s =
     (let dz = map (\<lambda>e. int (digitize 0 e) - 1) (edges s)
      in if list_all2 (\<lambda>d n. 0 \<le> d \<and> d < int n) dz (shape s)
         then Some (ravel_nd (shape s) (map nat dz)) else None)"

subsection \<open>\<^verbatim>\<open>get_power\<close>\<close>

text \<open>
  \<^verbatim>\<open>BasePowerSpectrumStatistics.get_power\<close>, statement by statement. The result pairs
  the instance after the call with the returned array: \<^verbatim>\<open>toret\<close> starts as a copy of
  \<^verbatim>\<open>self.power_nonorm\<close>, every in-place operation writes to the copy, and no attribute
  is assigned.
\<close>

definition null_zero :: "'v arith \<Rightarrow> 'v stat \<Rightarrow> 'v list list \<Rightarrow> 'v list list" where
  "null_zero ops s toret =
     (case zero_index s of
        None \<Rightarrow> toret
      | Some k \<Rightarrow>
          map2 (\<lambda>row pz. row[k := f_sub ops (row ! k) (f_div ops pz (f_of_nat ops (nmodes s ! k)))])
            toret (power_zero_nonorm s))"

definition base_get_power ::
  "'v arith \<Rightarrow> 'v stat \<Rightarrow> bool \<Rightarrow> bool \<Rightarrow> bool \<Rightarrow> bool \<Rightarrow> bool \<Rightarrow> 'v stat \<times> 'v list list" where
  "base_get_power ops s add_direct remove_shotnoise null_zero_mode divide_wnorm complex =
     (let toret = power_nonorm s;
          toret = (if add_direct then map2 (map2 (f_add ops)) toret (power_direct_nonorm s)
                   else toret);
          toret = (if remove_shotnoise then map (map (\<lambda>x. f_sub ops x (shotnoise_nonorm s))) toret
                   else toret);
          toret = (if null_zero_mode then null_zero ops s toret else toret);
          toret = (if divide_wnorm then map (map (\<lambda>x. f_div ops x (wnorm s))) toret else toret);
          toret = (if \<not> complex \<and> iscomplexobj s then map (map (f_re ops)) toret else toret)
      in (s, toret))"

text \<open>
  \<^verbatim>\<open>PowerSpectrumMultipoles.get_power\<close>: the base method without shot noise and
  normalisation, then the shot noise on the row \<^verbatim>\<open>self.ells.index(0)\<close> if \<open>0\<close> is among
  the orders, the normalisation, and the real part of the even rows and the imaginary
  part of the odd rows.
\<close>

definition poles_get_power ::
  "'v arith \<Rightarrow> 'v stat \<Rightarrow> bool \<Rightarrow> bool \<Rightarrow> bool \<Rightarrow> bool \<Rightarrow> bool \<Rightarrow> 'v stat \<times> 'v list list" where
  "poles_get_power ops s add_direct remove_shotnoise null_zero_mode divide_wnorm complex =
     (let (s', toret) = base_get_power ops s add_direct False null_zero_mode False True;
          i0 = index_of (ells s') 0;
          toret = (if remove_shotnoise \<and> 0 \<in> set (ells s')
                   then toret[i0 := map (\<lambda>x. f_sub ops x (shotnoise_nonorm s')) (toret ! i0)]
                   else toret);
          toret = (if divide_wnorm then map (map (\<lambda>x. f_div ops x (wnorm s'))) toret else toret);
          toret = (if \<not> complex \<and> iscomplexobj s'
                   then map (\<lambda>(ill, ell). if ell mod 2 = 0 then map (f_re ops) (toret ! ill)
                                           else map (f_im ops) (toret ! ill))
                          (enumerate 0 (ells s'))
                   else toret)
      in (s', toret))"

text \<open>
  Shapes that the constructor and the estimator keep consistent; numpy raises on
  an instance without them.
\<close>

definition wf_stat :: "'v stat \<Rightarrow> bool" where
  "wf_stat s \<longleftrightarrow>
     list_all (\<lambda>e. e \<noteq> []) (edges s) \<and>
     length (nmodes s) = prod_list (shape s) \<and>
     length (modes s) = length (edges s) \<and>
     list_all (\<lambda>a. length a = prod_list (shape s)) (modes s) \<and>
     list_all (\<lambda>row. length row = prod_list (shape s)) (power_nonorm s) \<and>
     list_all (\<lambda>row. length row = prod_list (shape s)) (power_direct_nonorm s) \<and>
     length (power_direct_nonorm s) = length (power_nonorm s) \<and>
     length (power_zero_nonorm s) = length (power_nonorm s)"

definition wf_poles :: "'v stat \<Rightarrow> bool" where
  "wf_poles s \<longleftrightarrow> wf_stat s \<and> length (edges s) = 1 \<and> length (power_nonorm s) = length (ells s)"

text \<open>
  The value of entry \<open>[i][j]\<close> after \<^verbatim>\<open>toret += self.power_direct_nonorm\<close>, and the effect
  of the zero-mode statement on an entry with value \<open>v\<close>.
\<close>

definition entry_direct :: "'v arith \<Rightarrow> 'v stat \<Rightarrow> bool \<Rightarrow> nat \<Rightarrow> nat \<Rightarrow> 'v" where
  "entry_direct ops s add_direct i j =
     (if add_direct then f_add ops (power_nonorm s ! i ! j) (power_direct_nonorm s ! i ! j)
      else power_nonorm s ! i ! j)"

definition entry_zero :: "'v arith \<Rightarrow> 'v stat \<Rightarrow> bool \<Rightarrow> nat \<Rightarrow> nat \<Rightarrow> 'v \<Rightarrow> 'v" where
  "entry_zero ops s null_zero_mode i j v =
     (if null_zero_mode \<and> zero_index s = Some j
      then f_sub ops v (f_div ops (power_zero_nonorm s ! i) (f_of_nat ops (nmodes s ! j)))
      else v)"

text \<open>
  The composition in the words of the specification, for both variants: add the direct
  power, subtract the shot noise, null the zero mode, divide by \<open>wnorm\<close>, and for
  \<open>complex = False\<close> take the real part, in the multipole variant the real part of the
  even orders and the imaginary part of the odd ones.
\<close>

definition get_power_spec ::
  "'v arith \<Rightarrow> bool \<Rightarrow> 'v stat \<Rightarrow> bool \<Rightarrow> bool \<Rightarrow> bool \<Rightarrow> bool \<Rightarrow> bool \<Rightarrow> 'v list list" where
  "get_power_spec ops multipole s add_direct remove_shotnoise null_zero_mode divide_wnorm complex =
     (let t = power_nonorm s;
          t = (if add_direct then map2 (map2 (f_add ops)) t (power_direct_nonorm s) else t);
          t = (if remove_shotnoise then map (map (\<lambda>x. f_sub ops x (shotnoise_nonorm s))) t else t);
          t = (if null_zero_mode then null_zero ops s t else t);
          t = (if divide_wnorm then map (map (\<lambda>x. f_div ops x (wnorm s))) t else t)
      in if complex then t
         else if multipole
         then map (\<lambda>(ill, ell). if ell mod 2 = 0 then map (f_re ops) (t ! ill)
                                 else map (f_im ops) (t ! ill)) (enumerate 0 (ells s))
         else map (map (f_re ops)) t)"

text \<open>A multipole instance with the single order \<open>2\<close>, one bin and shot noise \<open>1\<close>.\<close>

definition s5 :: "xr stat" where
  "s5 = \<lparr>edges = [[0, 1]], modes = [[XFin (1 / 2)]], power_nonorm = [[XFin 5]],
         power_zero_nonorm = [XFin 0], power_direct_nonorm = [[XFin 0]], nmodes = [1],
         wnorm = XFin 1, shotnoise_nonorm = XFin 1, ells = [2], iscomplexobj = False\<rparr>"

text \<open>A multipole instance with the orders \<open>0\<close> and \<open>2\<close>, one bin and shot noise \<open>1\<close>.\<close>

definition s10 :: "xr stat" where
  "s10 = \<lparr>edges = [[0, 1]], modes = [[XFin (1 / 2)]], power_nonorm = [[XFin 5], [XFin 7]],
          power_zero_nonorm = [XFin 0, XFin 0], power_direct_nonorm = [[XFin 0], [XFin 0]],
          nmodes = [1], wnorm = XFin 1, shotnoise_nonorm = XFin 1, ells = [0, 2],
          iscomplexobj = False\<rparr>"

subsection \<open>\<^verbatim>\<open>rebin\<close>\<close>

text \<open>\<^verbatim>\<open>_nan_to_zero\<close>: a copy of the array with every NaN replaced by \<^verbatim>\<open>0.\<close>.\<close>

definition nan_to_zero :: "'v arith \<Rightarrow> 'v list \<Rightarrow> 'v list" where
  "nan_to_zero ops array = map (\<lambda>v. if f_isnan ops v then f_zero ops else v) array"

text \<open>
  The multi-index of a flat index in an array of shape \<open>shp\<close> (row-major), and the flat
  index, in the array of shape \<open>new\<close>, of the group_of that holds the flat index \<open>k\<close> of the
  array of shape \<open>shp\<close>: on every axis \<open>c div d\<close> consecutive bins make one group.
\<close>

fun unravel :: "nat list \<Rightarrow> nat \<Rightarrow> nat list" where
  "unravel [] k = []"
| "unravel (n # ns) k = (k div prod_list ns) # unravel ns (k mod prod_list ns)"

definition coarse :: "nat list \<Rightarrow> nat list \<Rightarrow> nat \<Rightarrow> nat" where
  "coarse shp new k =
     ravel_nd new (map2 (\<lambda>i (c, d). i div (c div d)) (unravel shp k) (zip shp new))"

definition group_of :: "nat list \<Rightarrow> nat list \<Rightarrow> nat \<Rightarrow> nat list" where
  "group_of shp new J = filter (\<lambda>k. coarse shp new k = J) [0..<prod_list shp]"

text \<open>\<^verbatim>\<open>np.sum\<close> over the entries of one group: the first entry, the others added to it.\<close>

definition f_sum :: "'v arith \<Rightarrow> 'v list \<Rightarrow> 'v" where
  "f_sum ops xs = (case xs of [] \<Rightarrow> f_zero ops | x # ys \<Rightarrow> foldl (f_add ops) x ys)"

text \<open>
  Modelled from the spec: \<^verbatim>\<open>utils.rebin(ndarray, new_shape, statistic=np.sum)\<close> is
  called by \<^verbatim>\<open>rebin\<close> but \<^verbatim>\<open>utils.py\<close> is not among the source files. The
  specification says that the factor evenly divides the bin count per axis, that
  count-like fields are re-summed, and that the weighted values are summed over each
  group before the division: entry \<open>J\<close> of the result is the sum of the entries of
  group \<open>J\<close>. \<open>utils_rebin_nat\<close> is the same on the integer array \<^verbatim>\<open>nmodes\<close>.
\<close>

definition utils_rebin :: "'v arith \<Rightarrow> nat list \<Rightarrow> nat list \<Rightarrow> 'v list \<Rightarrow> 'v list" where
  "utils_rebin ops shp new_shape ndarray =
     map (\<lambda>J. f_sum ops (map (\<lambda>k. ndarray ! k) (group_of shp new_shape J))) [0..<prod_list new_shape]"

definition utils_rebin_nat :: "nat list \<Rightarrow> nat list \<Rightarrow> nat list \<Rightarrow> nat list" where
  "utils_rebin_nat shp new_shape ndarray =
     map (\<lambda>J. sum_list (map (\<lambda>k. ndarray ! k) (group_of shp new_shape J))) [0..<prod_list new_shape]"

text \<open>\<^verbatim>\<open>edges[::f]\<close> for a positive step: the entries at the indices \<open>0, f, 2 f, ...\<close>.\<close>

definition every :: "nat \<Rightarrow> 'a list \<Rightarrow> 'a list" where
  "every f xs = map (\<lambda>i. xs ! (i * f)) [0..<(length xs + f - 1) div f]"

text \<open>
  \<^verbatim>\<open>any(s % f for s, f in zip(self.shape, factor))\<close>, left to right: a zero factor
  raises \<^verbatim>\<open>ZeroDivisionError\<close> unless an earlier pair already has a remainder.
\<close>

fun any_rest :: "(nat \<times> nat) list \<Rightarrow> error + bool" where
  "any_rest [] = Inr False"
| "any_rest ((s, f) # ps) =
     (if f = 0 then Inl ZeroDivisionError else if s mod f \<noteq> 0 then Inr True else any_rest ps)"

text \<open>
  The re-averaging of one array of \<^verbatim>\<open>_toaverage\<close>: \<open>nm\<close> is the local variable
  \<^verbatim>\<open>nmodes\<close>, read before the counts are re-summed, \<open>nm'\<close> is \<^verbatim>\<open>self.nmodes\<close> after it.
\<close>

definition reaverage ::
  "'v arith \<Rightarrow> nat list \<Rightarrow> nat list \<Rightarrow> nat list \<Rightarrow> nat list \<Rightarrow> 'v list \<Rightarrow> 'v list" where
  "reaverage ops shp new_shape nm nm' arr =
     map2 (\<lambda>x n. f_div ops x (f_of_nat ops n))
       (utils_rebin ops shp new_shape
          (map2 (\<lambda>v n. f_mul ops v (f_of_nat ops n)) (nan_to_zero ops arr) nm))
       nm'"

text \<open>
  \<^verbatim>\<open>BasePowerSpectrumStatistics.rebin\<close>. The factor is a list (a scalar is the list of
  one entry), completed with ones (\<open>full_factor\<close>); \<open>new_shape_of\<close> is
  \<^verbatim>\<open>tuple(s // f for s, f in zip(self.shape, factor))\<close>. \<^verbatim>\<open>self.shape\<close> is read from
  the edges, which change last.
\<close>

definition full_factor :: "'v stat \<Rightarrow> nat list \<Rightarrow> nat list" where
  "full_factor s factor = factor @ replicate (length (edges s) - length factor) 1"

definition new_shape_of :: "'v stat \<Rightarrow> nat list \<Rightarrow> nat list" where
  "new_shape_of s factor = map2 (\<lambda>s f. s div f) (shape s) (full_factor s factor)"

definition rebin :: "'v arith \<Rightarrow> 'v stat \<Rightarrow> nat list \<Rightarrow> error + 'v stat" where
  "rebin ops s factor0 =
     (let factor = full_factor s factor0
      in if length factor > length (edges s) then Inl ValueError
         else case any_rest (zip (shape s) factor) of
                Inl e \<Rightarrow> Inl e
              | Inr True \<Rightarrow> Inl ValueError
              | Inr False \<Rightarrow>
                  (let new_shape = new_shape_of s factor0;
                       nm = nmodes s;
                       s = s\<lparr>nmodes := utils_rebin_nat (shape s) new_shape (nmodes s)\<rparr>;
                       s = s\<lparr>modes := map (reaverage ops (shape s) new_shape nm (nmodes s)) (modes s)\<rparr>;
                       s = s\<lparr>power_nonorm :=
                              map (reaverage ops (shape s) new_shape nm (nmodes s)) (power_nonorm s)\<rparr>;
                       s = s\<lparr>power_direct_nonorm :=
                              map (reaverage ops (shape s) new_shape nm (nmodes s))
                                (power_direct_nonorm s)\<rparr>
                   in Inr (s\<lparr>edges := map2 (\<lambda>e f. every f e) (edges s) factor\<rparr>)))"

text \<open>
  An instance as the estimator leaves it when one bin is empty: NaN averages, and the
  default \<^verbatim>\<open>power_direct_nonorm\<close> of zeros.
\<close>

definition s7 :: "xr stat" where
  "s7 = \<lparr>edges = [[0, 1]], modes = [[XNaN]], power_nonorm = [[XNaN]],
         power_zero_nonorm = [XFin 0], power_direct_nonorm = [[XFin 0]], nmodes = [0],
         wnorm = XFin 1, shotnoise_nonorm = XFin 0, ells = [0], iscomplexobj = False\<rparr>"

text \<open>An instance with four bins and counts \<open>1, 3, 0, 2\<close>.\<close>

definition s6 :: "xr stat" where
  "s6 = \<lparr>edges = [[0, 1, 2, 3, 4]], modes = [[XFin 1, XFin 2, XNaN, XFin 4]],
         power_nonorm = [[XFin 10, XFin 2, XNaN, XFin 6]],
         power_zero_nonorm = [XFin 0], power_direct_nonorm = [[XFin 0, XFin 0, XFin 0, XFin 0]],
         nmodes = [1, 3, 0, 2],
         wnorm = XFin 1, shotnoise_nonorm = XFin 0, ells = [0], iscomplexobj = False\<rparr>"

text \<open>
  The re-averaging in the words of the specification, to compare \<^verbatim>\<open>rebin\<close> with: the
  old values of the bins \<open>grp\<close> of a group, each weighted by its old count, summed and
  divided by the summed counts. No value is replaced.
\<close>

definition weighted_mean_spec :: "'v arith \<Rightarrow> 'v list \<Rightarrow> nat list \<Rightarrow> nat list \<Rightarrow> 'v" where
  "weighted_mean_spec ops arr nm grp =
     f_div ops (f_sum ops (map (\<lambda>k. f_mul ops (arr ! k) (f_of_nat ops (nm ! k))) grp))
       (f_of_nat ops (sum_list (map (\<lambda>k. nm ! k) grp)))"

text \<open>
  An instance with two bins of one mode each, the first with a NaN power: what
  \<^verbatim>\<open>project_to_basis\<close> leaves in a bin beyond the Nyquist frequency that receives the
  zero mode.
\<close>

definition s6n :: "xr stat" where
  "s6n = \<lparr>edges = [[0, 1, 2]], modes = [[XFin 1, XFin 2]],
          power_nonorm = [[XNaN, XFin 6]],
          power_zero_nonorm = [XFin 0], power_direct_nonorm = [[XFin 0, XFin 0]],
          nmodes = [1, 1],
          wnorm = XFin 1, shotnoise_nonorm = XFin 0, ells = [0], iscomplexobj = False\<rparr>"

section \<open>Estimator setup: \<^verbatim>\<open>MeshFFTPower.__init__\<close>\<close>

text \<open>
  \<^verbatim>\<open>str.lower\<close> on ASCII strings: an upper-case letter gets bit 5 set, every other
  character stays. Characters beyond ASCII are outside the model.
\<close>

definition lower_char :: "char \<Rightarrow> char" where
  "lower_char c =
     (case c of Char b0 b1 b2 b3 b4 b5 b6 b7 \<Rightarrow>
        if 65 \<le> (of_char c :: nat) \<and> (of_char c :: nat) \<le> 90
        then Char b0 b1 b2 b3 b4 True b6 b7 else c)"

definition lower :: "string \<Rightarrow> string" where
  "lower s = map lower_char s"

text \<open>The \<^verbatim>\<open>los\<close> argument: \<^verbatim>\<open>None\<close>, a string, an axis index or a 3-vector.\<close>

datatype los_arg = LosNone | LosStr string | LosIndex int | LosVec "real list"

definition allowed_los :: "string list" where
  "allowed_los = [''firstpoint'', ''endpoint'', ''x'', ''y'', ''z'']"

text \<open>
  The global branch for an axis index: \<^verbatim>\<open>los = np.zeros(3); los[ilos] = 1.\<close>, which
  raises \<^verbatim>\<open>IndexError\<close> for an index outside \<open>-3..2\<close>. The division
  \<^verbatim>\<open>los / utils.distance(los)\<close> is the parameter \<open>unit\<close>: \<^verbatim>\<open>utils\<close> is not among the
  source files, and no claim depends on it.
\<close>

definition global_axis :: "(real list \<Rightarrow> real list) \<Rightarrow> int \<Rightarrow> error + (string \<times> real list option)" where
  "global_axis unit ilos =
     (if - 3 \<le> ilos \<and> ilos < 3
      then Inr (''global'', Some (unit ([0, 0, 0][nat (ilos mod 3) := 1])))
      else Inl IndexError)"

definition get_los :: "(real list \<Rightarrow> real list) \<Rightarrow> los_arg \<Rightarrow> error + (string \<times> real list option)" where
  "get_los unit los =
     (case los of
        LosNone \<Rightarrow> Inr (''firstpoint'', None)
      | LosStr s \<Rightarrow>
          (let los = lower s
           in if los \<notin> set allowed_los then Inl ValueError
              else if los \<in> set [''firstpoint'', ''endpoint''] then Inr (los, None)
              else global_axis unit (int (index_of ''xyz'' (hd los))))
      | LosIndex i \<Rightarrow> global_axis unit i
      | LosVec v \<Rightarrow> Inr (''global'', Some (unit v)))"

text \<open>\<^verbatim>\<open>_set_ells\<close>: \<^verbatim>\<open>ells\<close> is \<^verbatim>\<open>None\<close>, a scalar or a sequence.\<close>

datatype ells_arg = EllsNone | EllsScalar int | EllsSeq "int list"

definition set_ells :: "string \<Rightarrow> real list option \<Rightarrow> ells_arg \<Rightarrow> error + int list option" where
  "set_ells los_type los a =
     (case a of
        EllsNone \<Rightarrow> if los_type \<noteq> ''global'' then Inl ValueError else Inr None
      | _ \<Rightarrow>
          (let l = (case a of EllsScalar e \<Rightarrow> [e] | EllsSeq l \<Rightarrow> l | EllsNone \<Rightarrow> [])
           in if los = None \<and> l = [] then Inl ValueError
              else if \<exists>ell \<in> set l. ell < 0 then Inl ValueError
              else Inr (Some l)))"

text \<open>
  \<^verbatim>\<open>_set_edges\<close> after its first lines have split the argument into \<^verbatim>\<open>kedges\<close> and
  \<^verbatim>\<open>muedges\<close>. The \<open>k\<close>-edges are \<^verbatim>\<open>None\<close>, a dictionary with the optional keys
  \<^verbatim>\<open>min\<close>, \<^verbatim>\<open>max\<close> and \<^verbatim>\<open>step\<close>, or a sequence. For \<^verbatim>\<open>None\<close> and for a dictionary the
  edges are computed from the mesh, by \<^verbatim>\<open>find_unique_edges\<close> or by \<^verbatim>\<open>np.arange\<close>; that
  computation is the parameter \<open>derive\<close>, and it can raise.
\<close>

datatype kedges_arg = KNone | KDict "real option" "real option" "real option" | KSeq "real list"

definition kedges_of ::
  "(real option \<Rightarrow> real option \<Rightarrow> real option \<Rightarrow> error + real list) \<Rightarrow> kedges_arg \<Rightarrow> error + real list" where
  "kedges_of derive k =
     (case k of KNone \<Rightarrow> derive None None None
              | KDict kmin kmax dk \<Rightarrow> derive kmin kmax dk
              | KSeq l \<Rightarrow> Inr l)"

text \<open>
  The rest of \<^verbatim>\<open>_set_edges\<close>: the log line of rank \<open>0\<close> reads \<^verbatim>\<open>kedges[0]\<close>, the
  default \<open>mu\<close>-edges are \<^verbatim>\<open>np.linspace(-1., 1., 2)\<close>, more than one wedge needs a
  global line of sight, and each edge sequence needs two entries.
\<close>

definition set_edges ::
  "(real option \<Rightarrow> real option \<Rightarrow> real option \<Rightarrow> error + real list) \<Rightarrow> bool \<Rightarrow> string \<Rightarrow>
   kedges_arg \<Rightarrow> real list option \<Rightarrow> error + (real list \<times> real list)" where
  "set_edges derive rank0 los_type k mu =
     (case kedges_of derive k of
        Inl e \<Rightarrow> Inl e
      | Inr kedges \<Rightarrow>
          if rank0 \<and> kedges = [] then Inl IndexError
          else case (case mu of None \<Rightarrow> Inr [- 1, 1]
                             | Some m \<Rightarrow> if los_type \<noteq> ''global'' \<and> length m > 2
                                         then Inl ValueError else Inr m) of
                 Inl e \<Rightarrow> Inl e
               | Inr muedges \<Rightarrow>
                   if length kedges < 2 then Inl ValueError
                   else if length muedges < 2 then Inl ValueError
                   else Inr (kedges, muedges))"

text \<open>
  What \<^verbatim>\<open>__init__\<close> does outside this file, as events: catalogs are painted to
  meshes in \<^verbatim>\<open>_set_mesh\<close>; transforms and binning happen in \<^verbatim>\<open>run\<close>.
\<close>

datatype event = Paint | Transform | Binning

text \<open>
  The arguments of \<^verbatim>\<open>__init__\<close> and what the collaborators answer: whether
  \<^verbatim>\<open>_set_compensations\<close> and the checks of \<^verbatim>\<open>_set_mesh\<close> raise, how many catalogs are
  painted, and the events of \<^verbatim>\<open>run\<close>.
\<close>

record init_args =
  arg_compensations :: "error option"
  arg_los :: los_arg
  arg_ells :: ells_arg
  arg_painted :: nat
  arg_mesh :: "error option"
  arg_kedges :: kedges_arg
  arg_muedges :: "real list option"
  arg_rank0 :: bool
  arg_run :: "event list"

text \<open>
  \<^verbatim>\<open>__init__\<close>: the setters in source order, then \<^verbatim>\<open>run\<close>. The result is the list of
  events so far and either the error raised or the edges in use. The code is a straight
  line: an error ends it, and nothing is tried again.
\<close>

definition init ::
  "(real list \<Rightarrow> real list) \<Rightarrow> (real option \<Rightarrow> real option \<Rightarrow> real option \<Rightarrow> error + real list) \<Rightarrow>
   init_args \<Rightarrow> event list \<times> (error + (real list \<times> real list))" where
  "init unit derive a =
     (case arg_compensations a of
        Some e \<Rightarrow> ([], Inl e)
      | None \<Rightarrow>
     (case get_los unit (arg_los a) of
        Inl e \<Rightarrow> ([], Inl e)
      | Inr (los_type, los) \<Rightarrow>
     (case set_ells los_type los (arg_ells a) of
        Inl e \<Rightarrow> ([], Inl e)
      | Inr ells' \<Rightarrow>
     (case arg_mesh a of
        Some e \<Rightarrow> (replicate (arg_painted a) Paint, Inl e)
      | None \<Rightarrow>
     (case set_edges derive (arg_rank0 a) los_type (arg_kedges a) (arg_muedges a) of
        Inl e \<Rightarrow> (replicate (arg_painted a) Paint, Inl e)
      | Inr es \<Rightarrow> (replicate (arg_painted a) Paint @ arg_run a, Inr es))))))"

text \<open>Arguments that pass every check: a global line of sight and explicit edges.\<close>

definition a9 :: init_args where
  "a9 = \<lparr>arg_compensations = None, arg_los = LosStr ''x'', arg_ells = EllsSeq [0, 2, 4],
         arg_painted = 1, arg_mesh = None, arg_kedges = KSeq [0, 1], arg_muedges = None,
         arg_rank0 = True, arg_run = [Transform, Binning]\<rparr>"

section \<open>The unique-edges builder: \<^verbatim>\<open>find_unique_edges\<close>\<close>

text \<open>
  Coordinates are real numbers and the arithmetic is exact. The theorems take the
  fundamental separation \<open>x0\<close> nonzero: a division by zero is \<open>0\<close> here and
  \<^verbatim>\<open>inf\<close> or \<^verbatim>\<open>nan\<close> in numpy.

  \<^verbatim>\<open>np.int64\<close> of a float array: the fractional part is dropped (truncation towards
  zero). A value whose integer part is outside the 64-bit range is not representable;
  numpy then warns and stores what the conversion instruction of the processor gives,
  which is \<open>- 2\<^sup>6\<^sup>3\<close> on x86-64.
\<close>

definition trunc :: "real \<Rightarrow> int" where
  "trunc y = (if y \<ge> 0 then \<lfloor>y\<rfloor> else \<lceil>y\<rceil>)"

definition int64 :: "real \<Rightarrow> int" where
  "int64 y = (if - (2 ^ 63) \<le> trunc y \<and> trunc y < 2 ^ 63 then trunc y else - (2 ^ 63))"

text \<open>The key of \<^verbatim>\<open>unique_index\<close>: \<^verbatim>\<open>np.int64(x2 / (0.5 * x0)**2 + 0.5)\<close>.\<close>

definition ukey :: "real \<Rightarrow> real \<Rightarrow> int" where
  "ukey x0 x2 = int64 (x2 / (0.5 * x0) ^ 2 + 0.5)"

text \<open>
  \<^verbatim>\<open>x2[unique_index(x2)]\<close>: \<^verbatim>\<open>np.unique(keys, return_index=True)[1]\<close> gives, for every
  distinct key in increasing order, the index of its first occurrence; so the result
  holds, key by key, the first entry of \<^verbatim>\<open>x2\<close> with that key.
\<close>

definition unique_by :: "real \<Rightarrow> real list \<Rightarrow> real list" where
  "unique_by x0 x2 =
     map (\<lambda>k. hd (filter (\<lambda>v. ukey x0 v = k) x2)) (sort (remdups (map (ukey x0) x2)))"

text \<open>\<^verbatim>\<open>xmax\<close> is a float or \<^verbatim>\<open>np.inf\<close> (the default), which is \<open>None\<close> here.\<close>

definition le_max :: "real \<Rightarrow> real option \<Rightarrow> bool" where
  "le_max v xmax = (case xmax of None \<Rightarrow> True | Some m \<Rightarrow> v \<le> m ^ 2)"

definition min_max :: "real \<Rightarrow> real option \<Rightarrow> real" where
  "min_max a xmax = (case xmax of None \<Rightarrow> a | Some m \<Rightarrow> min a m)"

text \<open>
  \<^verbatim>\<open>sum(xi**2 for xi in x)\<close> at one point; a point is the list of its coordinates,
  after broadcasting.
\<close>

definition norm2 :: "real list \<Rightarrow> real" where
  "norm2 p = sum_list (map (\<lambda>xi. xi ^ 2) p)"

text \<open>\<^verbatim>\<open>unique_local\<close> on the points of one process.\<close>

definition unique_local :: "real \<Rightarrow> real \<Rightarrow> real option \<Rightarrow> real list list \<Rightarrow> real list" where
  "unique_local x0 xmin xmax x =
     filter (\<lambda>v. v \<ge> xmin ^ 2 \<and> le_max v xmax) (unique_by x0 (map norm2 x))"

text \<open>
  The unique norms \<^verbatim>\<open>fx\<close>: \<open>xs\<close> holds the points of every process, and
  \<^verbatim>\<open>np.concatenate(mpicomm.allgather(fx2))\<close> joins what the processes found.
\<close>

definition unique_norms :: "real \<Rightarrow> real \<Rightarrow> real option \<Rightarrow> real list list list \<Rightarrow> real list" where
  "unique_norms x0 xmin xmax xs =
     map sqrt (unique_by x0 (concat (map (unique_local x0 xmin xmax) xs)))"

text \<open>\<^verbatim>\<open>np.diff\<close>.\<close>

definition diff :: "real list \<Rightarrow> real list" where
  "diff fx = map2 (\<lambda>b a. b - a) (tl fx) fx"

text \<open>
  \<^verbatim>\<open>find_unique_edges\<close>: \<^verbatim>\<open>fx[-1]\<close> and \<^verbatim>\<open>width[-1]\<close> raise \<^verbatim>\<open>IndexError\<close> when fewer
  than two unique norms are found.
\<close>

definition find_unique_edges ::
  "real list list list \<Rightarrow> real \<Rightarrow> real \<Rightarrow> real option \<Rightarrow> error + real list" where
  "find_unique_edges xs x0 xmin xmax =
     (let fx = unique_norms x0 xmin xmax xs;
          width = diff fx
      in if fx = [] \<or> width = [] then Inl IndexError
         else Inr ([xmin] @ map2 (\<lambda>a w. a - w / 2) (tl fx) width
                   @ [min_max (last fx + last width / 2) xmax]))"

text \<open>
  Whether the half-open bin \<open>i\<close> of the edges \<open>es\<close> holds the value \<open>v\<close>, as
  \<^verbatim>\<open>np.digitize(x, edges, right=False)\<close> bins it.
\<close>

definition in_bin :: "real list \<Rightarrow> nat \<Rightarrow> real \<Rightarrow> bool" where
  "in_bin es i v \<longleftrightarrow> es ! i \<le> v \<and> v < es ! Suc i"

text \<open>Whether \<open>v\<close> is strictly below \<^verbatim>\<open>xmax\<close>.\<close>

definition below_max :: "real \<Rightarrow> real option \<Rightarrow> bool" where
  "below_max v xmax = (case xmax of None \<Rightarrow> True | Some m \<Rightarrow> v < m)"

text \<open>Whether the key of the squared norm \<open>v\<close> is computed without overflow.\<close>

definition key_fits :: "real \<Rightarrow> real \<Rightarrow> bool" where
  "key_fits x0 v \<longleftrightarrow> 0 \<le> v \<and> v / (0.5 * x0) ^ 2 + 0.5 < 2 ^ 63"

text \<open>
  Points of two processes in two dimensions, with squared norms \<open>0, 1\<close> and \<open>4, 1\<close>:
  the norm \<open>1\<close> is found by both processes.
\<close>

definition x8 :: "real list list list" where
  "x8 = [[[0, 0], [1, 0]], [[0, 2], [0, 1]]]"

section \<open>Properties of the bin indices\<close>

lemma digitize_le: "digitize x bins \<le> length bins"
  by (simp add: digitize_def length_takeWhile_le)

lemma digitize_sorted_iff:
  assumes "sorted bins" and "i < length bins"
  shows "digitize x bins = Suc i \<longleftrightarrow>
         bins ! i \<le> x \<and> (Suc i < length bins \<longrightarrow> x < bins ! Suc i)"
  using assms
proof (induction bins arbitrary: i)
  case Nil
  then show ?case by simp
next
  case (Cons b bs)
  show ?case
  proof (cases "b \<le> x")
    case True
    show ?thesis
    proof (cases i)
      case 0
      show ?thesis
      proof (cases bs)
        case Nil
        with True 0 show ?thesis by (simp add: digitize_def)
      next
        case (Cons c cs)
        with True 0 show ?thesis by (auto simp: digitize_def)
      qed
    next
      case (Suc j)
      with Cons.prems have j: "j < length bs" and s: "sorted bs" by simp_all
      from Cons.IH [OF s j] True Suc show ?thesis by (simp add: digitize_def)
    qed
  next
    case False
    have "\<forall>e \<in> set bs. b \<le> e" using Cons.prems by simp
    then have "\<not> (b # bs) ! i \<le> x" using False Cons.prems(2)
      by (cases i) (auto simp: not_le intro: less_le_trans)
    with False show ?thesis by (simp add: digitize_def)
  qed
qed

lemma digitize_lower: "digitize x bins = Suc i \<Longrightarrow> bins ! i \<le> x"
proof -
  assume a: "digitize x bins = Suc i"
  then have "i < length (takeWhile (\<lambda>e. e \<le> x) bins)" by (simp add: digitize_def)
  then have "takeWhile (\<lambda>e. e \<le> x) bins ! i \<le> x"
    using nth_mem set_takeWhileD by fastforce
  moreover have "takeWhile (\<lambda>e. e \<le> x) bins ! i = bins ! i"
    using a by (simp add: digitize_def takeWhile_nth)
  ultimately show ?thesis by simp
qed

text \<open>
  C4. In \<^verbatim>\<open>project_to_basis\<close>, with sorted \<open>mu\<close>-edges, a mode that has an angle cosine
  \<open>mu\<close> (it is not routed to the zero bin) gets the histogram column \<open>i + 1\<close>, which
  the final slice turns into \<open>mu\<close>-bin \<open>i\<close>, exactly when
  \<open>mu_edges[i] \<le> mu < mu_edges[i+1]\<close>, or when \<open>i\<close> is the last bin and \<open>mu\<close> equals the
  last edge: the last \<open>mu\<close>-bin alone is closed on both ends.
\<close>

theorem mu_bin_half_open_last_closed:
  assumes "sorted muedges" and "\<not> mask_zero mc m" and "i < nbins muedges"
  shows "dig_mu muedges mc m mu = Suc i \<longleftrightarrow>
         (muedges ! i \<le> mu \<and> mu < muedges ! Suc i) \<or>
         (Suc i = nbins muedges \<and> mu = last muedges)"
proof -
  from assms(3) have len: "Suc i < length muedges" and ne: "muedges \<noteq> []"
    by (auto simp: nbins_def)
  have last_eq: "last muedges = muedges ! nbins muedges"
    using ne by (simp add: last_conv_nth nbins_def)
  show ?thesis
  proof (cases "mu = last muedges")
    case True
    have "muedges ! Suc i \<le> muedges ! nbins muedges"
      using assms(1,3) ne by (intro sorted_nth_mono) (auto simp: nbins_def)
    then have "\<not> mu < muedges ! Suc i" using True last_eq by simp
    with True assms(2) show ?thesis by (auto simp: dig_mu_def)
  next
    case False
    have "i < length muedges" using len by simp
    from digitize_sorted_iff [OF assms(1) this, of mu] len False assms(2)
    show ?thesis by (simp add: dig_mu_def)
  qed
qed

theorem mu_bin_half_open_last_closed_witness:
  "sorted [-1, 0, 1 :: real] \<and> \<not> mask_zero 1 (0, 0, 2, 5) \<and> (1::nat) < nbins [-1, 0, 1]
   \<and> dig_mu [-1, 0, 1] 1 (0, 0, 2, 5) 1 = Suc 1"
proof -
  have s: "sorted [-1, 0, 1 :: real]" by simp
  have z: "\<not> mask_zero 1 (0, 0, 2, 5)"
    by (simp add: mask_zero_def xnorm_def xvec_def)
  have i: "(1::nat) < nbins [-1, 0, 1]" by (simp add: nbins_def)
  from mu_bin_half_open_last_closed [OF s z i, of 1] s z i
  show ?thesis by (simp add: nbins_def)
qed

section \<open>The accumulated sums\<close>

lemma tab_nth: "k < n \<Longrightarrow> tab n F ! k = F k"
  by (simp add: tab_def)

lemma tab_add: "map2 (+) (tab n F) (tab n G) = tab n (\<lambda>k. F k + G k)"
  by (simp add: tab_def zip_map_map map_zip_map zip_same_conv_map)

lemma map2_same: "map2 g xs (map h xs) = map (\<lambda>x. g x (h x)) xs"
  by (induction xs) auto

lemma map2_maps: "map2 g (map h1 xs) (map h2 xs) = map (\<lambda>x. g (h1 x) (h2 x)) xs"
  by (induction xs) auto

lemma select_map: "select (map p xs) (map g xs) = map g (filter p xs)"
  by (induction xs) (auto simp: select_def)

lemma bincount_map:
  "bincount (map I xs) (map g xs) n = tab n (\<lambda>k. sum_list (map g (filter (\<lambda>m. I m = k) xs)))"
proof -
  have "sum_list (map snd (filter (\<lambda>p. fst p = k) (zip (map I xs) (map g xs))))
        = sum_list (map g (filter (\<lambda>m. I m = k) xs))" for k
    by (induction xs) auto
  then show ?thesis by (simp add: bincount_def tab_def)
qed

lemma bincount_n_map:
  "bincount_n (map I xs) n = tab n (\<lambda>k. length (filter (\<lambda>m. I m = k) xs))"
  by (simp add: bincount_n_def tab_def filter_map comp_def)

lemma acc0_mk: "acc0 xe me ue = mk_acc (hsize xe me) ue (\<lambda>k. 0) (\<lambda>k. 0) (\<lambda>k. 0) (\<lambda>ell k. 0)"
  by (simp add: acc0_def mk_acc_def tab_def map_replicate_const)

lemma slab_pass_mk:
  "slab_pass xe me mc ue hs ms imu (map muf ms) (mk_acc (hsize xe me) ue N X M Y) =
   mk_acc (hsize xe me) ue
     (\<lambda>k. N k + length (filter (\<lambda>m. multi_index xe me mc m (muf m) = k) (visited hs imu ms)))
     (\<lambda>k. X k + sum_list (map xnorm (filter (\<lambda>m. multi_index xe me mc m (muf m) = k) (visited hs imu ms))))
     (\<lambda>k. M k + sum_list (map muf (filter (\<lambda>m. multi_index xe me mc m (muf m) = k) (visited hs imu ms))))
     (\<lambda>ell k. Y ell k + sum_list (map (\<lambda>m. yweight hs imu ell (muf m) (yval m))
          (filter (\<lambda>m. multi_index xe me mc m (muf m) = k) (visited hs imu ms))))"
proof (cases "hs \<noteq> 0 \<and> imu \<noteq> 0")
  case True
  then have *: "(hs \<noteq> 0 \<and> imu \<noteq> 0) = True" by simp
  show ?thesis
    unfolding slab_pass_def Let_def mk_acc_def visited_def yweight_def *
    by (simp add: map2_same select_map map2_maps bincount_map bincount_n_map tab_add)
next
  case False
  then have *: "(hs \<noteq> 0 \<and> imu \<noteq> 0) = False" by simp
  show ?thesis
    unfolding slab_pass_def Let_def mk_acc_def visited_def yweight_def *
    by (simp add: map2_same select_map map2_maps bincount_map bincount_n_map tab_add)
qed

lemma contrib_Nil: "contrib hs I1 I2 g1 g2 k [] = 0"
  by (simp add: contrib_def)

lemma contrib_append:
  "contrib hs I1 I2 g1 g2 k (xs @ ys) = contrib hs I1 I2 g1 g2 k xs + contrib hs I1 I2 g1 g2 k ys"
  by (simp add: contrib_def ac_simps)

lemma length_as_sum: "sum_list (map (\<lambda>m. Suc 0) xs) = length xs"
  by (induction xs) auto

lemma slab_step_mk:
  "slab_step xe me los mc ue hs ms (mk_acc (hsize xe me) ue N X M Y) =
   mk_acc (hsize xe me) ue
     (\<lambda>k. N k + contrib hs (first_bin xe me los mc) (mirror_bin xe me los mc) (\<lambda>m. 1) (\<lambda>m. 1) k ms)
     (\<lambda>k. X k + contrib hs (first_bin xe me los mc) (mirror_bin xe me los mc) xnorm xnorm k ms)
     (\<lambda>k. M k + contrib hs (first_bin xe me los mc) (mirror_bin xe me los mc)
                  (mu_of los mc) (\<lambda>m. - mu_of los mc m) k ms)
     (\<lambda>ell k. Y ell k + contrib hs (first_bin xe me los mc) (mirror_bin xe me los mc)
                  (\<lambda>m. of_real (weight ell (mu_of los mc m)) * yval m)
                  (\<lambda>m. of_int hs * of_real (weight ell (- mu_of los mc m)) * cnj (yval m)) k ms)"
proof (cases "ms = []")
  case True
  then show ?thesis by (simp add: slab_step_def contrib_Nil)
next
  case ne: False
  have um: "map uminus (map (mu_of los mc) ms) = map (\<lambda>m. - mu_of los mc m) ms" by simp
  show ?thesis
  proof (cases "hs = 0")
    case True
    with ne show ?thesis
      by (simp add: slab_step_def slab_pass_mk contrib_def visited_def yweight_def
          first_bin_def length_as_sum)
  next
    case False
    with ne show ?thesis
      unfolding slab_step_def Let_def um
      by (simp add: slab_pass_mk contrib_def visited_def yweight_def
          first_bin_def mirror_bin_def length_as_sum add.assoc)
  qed
qed

lemma fold_slab_step_mk:
  "fold (\<lambda>i. slab_step xe me los mc ue hs (sl i)) is (mk_acc (hsize xe me) ue N X M Y) =
   mk_acc (hsize xe me) ue
     (\<lambda>k. N k + contrib hs (first_bin xe me los mc) (mirror_bin xe me los mc) (\<lambda>m. 1) (\<lambda>m. 1) k
                  (concat (map sl is)))
     (\<lambda>k. X k + contrib hs (first_bin xe me los mc) (mirror_bin xe me los mc) xnorm xnorm k
                  (concat (map sl is)))
     (\<lambda>k. M k + contrib hs (first_bin xe me los mc) (mirror_bin xe me los mc)
                  (mu_of los mc) (\<lambda>m. - mu_of los mc m) k (concat (map sl is)))
     (\<lambda>ell k. Y ell k + contrib hs (first_bin xe me los mc) (mirror_bin xe me los mc)
                  (\<lambda>m. of_real (weight ell (mu_of los mc m)) * yval m)
                  (\<lambda>m. of_int hs * of_real (weight ell (- mu_of los mc m)) * cnj (yval m)) k
                  (concat (map sl is)))"
proof (induction "is" arbitrary: N X M Y)
  case Nil
  then show ?case by (simp add: contrib_Nil)
next
  case (Cons i "is")
  show ?case
    by (simp add: slab_step_mk Cons.IH contrib_append add.assoc)
qed

lemma accumulate_mk:
  "accumulate f xe me los ue anti =
   mk_acc (hsize xe me) ue
     (\<lambda>k. contrib (hermitian_symmetric f anti) (first_bin xe me los (mincell f)) (mirror_bin xe me los (mincell f)) (\<lambda>m. 1) (\<lambda>m. 1) k
                  (all_modes f))
     (\<lambda>k. contrib (hermitian_symmetric f anti) (first_bin xe me los (mincell f)) (mirror_bin xe me los (mincell f)) xnorm xnorm k
                  (all_modes f))
     (\<lambda>k. contrib (hermitian_symmetric f anti) (first_bin xe me los (mincell f)) (mirror_bin xe me los (mincell f))
                  (mu_of los (mincell f)) (\<lambda>m. - mu_of los (mincell f) m) k (all_modes f))
     (\<lambda>ell k. contrib (hermitian_symmetric f anti) (first_bin xe me los (mincell f)) (mirror_bin xe me los (mincell f))
                  (\<lambda>m. of_real (weight ell (mu_of los (mincell f) m)) * yval m)
                  (\<lambda>m. of_int (hermitian_symmetric f anti) * of_real (weight ell (- mu_of los (mincell f) m)) * cnj (yval m)) k
                  (all_modes f))"
  unfolding accumulate_def acc0_mk all_modes_def
  by (simp add: fold_slab_step_mk)

lemma hs_compressed:
  "compressed f \<Longrightarrow> hermitian_symmetric f anti = (if anti then - 1 else 1)"
  by (simp add: hermitian_symmetric_def)

lemma digitize_le_nbins: "digitize x bins \<le> nbins bins + 1"
  using digitize_le [of x bins] by (simp add: nbins_def)

lemma ravel_inj:
  "j < nbins me + 3 \<Longrightarrow> j' < nbins me + 3 \<Longrightarrow> ravel me i j = ravel me i' j' \<longleftrightarrow> i = i' \<and> j = j'"
proof
  assume a: "j < nbins me + 3" "j' < nbins me + 3" and e: "ravel me i j = ravel me i' j'"
  have 1: "(i * (nbins me + 3) + j) div (nbins me + 3) = i" using a by simp
  have 2: "(i' * (nbins me + 3) + j') div (nbins me + 3) = i'" using a by simp
  have "i * (nbins me + 3) + j = i' * (nbins me + 3) + j'" using e by (simp add: ravel_def)
  then have "i = i'" using 1 2 by metis
  with e show "i = i' \<and> j = j'" by (simp add: ravel_def)
qed simp

lemma ravel_div: "j < nbins me + 3 \<Longrightarrow> ravel me i j div (nbins me + 3) = i"
  by (simp add: ravel_def)

lemma ravel_less: "i < nbins xe + 3 \<Longrightarrow> j < nbins me + 3 \<Longrightarrow> ravel me i j < hsize xe me"
proof -
  assume a: "i < nbins xe + 3" "j < nbins me + 3"
  then have "i * (nbins me + 3) + j < i * (nbins me + 3) + (nbins me + 3)" by simp
  also have "\<dots> = Suc i * (nbins me + 3)" by simp
  also have "\<dots> \<le> (nbins xe + 3) * (nbins me + 3)"
    using a(1) by (intro mult_le_mono1) simp
  finally show ?thesis by (simp add: ravel_def hsize_def)
qed

lemma dig_mu_less: "dig_mu me mc m mu < nbins me + 3"
  using digitize_le_nbins [of mu me] by (simp add: dig_mu_def)

lemma multi_index_less: "multi_index xe me mc m mu < hsize xe me"
proof -
  have "dig_x xe mc m < nbins xe + 3"
    using digitize_le_nbins [of "xnorm m" xe] by (simp add: dig_x_def)
  then show ?thesis
    unfolding multi_index_def using dig_mu_less by (rule ravel_less)
qed

lemma nonsingular_pos: "nonsingular = (\<lambda>m. 0 < last (xvec m))"
  by (rule ext) (simp add: nonsingular_def xvec_def split: prod.splits)

lemma count_total:
  assumes "\<forall>m \<in> set ms. I m < n"
  shows "sum_list (map (\<lambda>k. length (filter (\<lambda>m. I m = k) ms)) [0..<n]) = length ms"
  using assms
proof (induction ms)
  case Nil
  then show ?case by simp
next
  case (Cons a ms)
  have "sum_list (map (\<lambda>k. length (filter (\<lambda>m. I m = k) (a # ms))) [0..<n])
        = sum_list (map (\<lambda>k. (if I a = k then 1 else 0) + length (filter (\<lambda>m. I m = k) ms)) [0..<n])"
    by (intro arg_cong [where f = sum_list] map_cong) simp_all
  also have "\<dots> = sum_list (map (\<lambda>k. if I a = k then 1 else 0) [0..<n])
                  + sum_list (map (\<lambda>k. length (filter (\<lambda>m. I m = k) ms)) [0..<n])"
    by (rule sum_list_addf)
  also have "sum_list (map (\<lambda>k. if I a = k then 1 else 0) [0..<n]) = (\<Sum>k \<in> {0..<n}. if I a = k then 1 else 0)"
    by (simp add: interv_sum_list_conv_sum_set_nat)
  also have "\<dots> = (1::nat)" using Cons.prems by simp
  finally show ?case using Cons by simp
qed

lemma nsum_total:
  assumes "compressed f"
  shows "sum_list (nsum (accumulate f xedges muedges los unique_ells antisymmetric)) =
         length (all_modes f) + length (filter (\<lambda>m. 0 < last (xvec m)) (all_modes f))"
proof -
  let ?n = "hsize xedges muedges"
  let ?I1 = "first_bin xedges muedges los (mincell f)"
  let ?I2 = "mirror_bin xedges muedges los (mincell f)"
  let ?ms = "all_modes f"
  let ?ps = "filter (\<lambda>m. 0 < last (xvec m)) (all_modes f)"
  have hs: "hermitian_symmetric f antisymmetric \<noteq> 0"
    using assms by (simp add: hs_compressed)
  have "nsum (accumulate f xedges muedges los unique_ells antisymmetric)
        = map (\<lambda>k. length (filter (\<lambda>m. ?I1 m = k) ?ms) + length (filter (\<lambda>m. ?I2 m = k) ?ps)) [0..<?n]"
    unfolding accumulate_mk mk_acc_def tab_def
    using hs by (simp add: contrib_def length_as_sum nonsingular_pos)
  then have "sum_list (nsum (accumulate f xedges muedges los unique_ells antisymmetric))
        = sum_list (map (\<lambda>k. length (filter (\<lambda>m. ?I1 m = k) ?ms)) [0..<?n])
          + sum_list (map (\<lambda>k. length (filter (\<lambda>m. ?I2 m = k) ?ps)) [0..<?n])"
    by (simp only: sum_list_addf)
  also have "sum_list (map (\<lambda>k. length (filter (\<lambda>m. ?I1 m = k) ?ms)) [0..<?n]) = length ?ms"
    by (intro count_total) (simp add: first_bin_def multi_index_less)
  also have "sum_list (map (\<lambda>k. length (filter (\<lambda>m. ?I2 m = k) ?ps)) [0..<?n]) = length ?ps"
    by (intro count_total) (simp add: mirror_bin_def multi_index_less)
  finally show ?thesis .
qed

text \<open>
  C1. For a Hermitian-compressed field, every buffer entry is the sum over all stored
  modes in their own bin, plus a second sum over the stored modes whose frequency along
  the compression (last) axis is strictly positive, each in the bin of \<open>- mu\<close>, with
  \<open>- mu\<close> in the Legendre weight and the field value conjugated and multiplied by \<open>-1\<close>
  if \<open>antisymmetric\<close> and by \<open>1\<close> otherwise. A mode that fails the predicate is in the
  first sum only: it is accumulated exactly once, so that the counts of all bins add up
  to the number of stored modes plus the number of those of positive frequency.
\<close>

theorem mirror_pass_accumulation:
  assumes "compressed f" and "k < hsize xedges muedges" and "ill < length unique_ells"
  shows
    "nsum (accumulate f xedges muedges los unique_ells antisymmetric) ! k =
       length (filter (\<lambda>m. first_bin xedges muedges los (mincell f) m = k) (all_modes f)) +
       length (filter (\<lambda>m. mirror_bin xedges muedges los (mincell f) m = k)
                 (filter (\<lambda>m. 0 < last (xvec m)) (all_modes f)))
     \<and> xsum (accumulate f xedges muedges los unique_ells antisymmetric) ! k =
       (\<Sum>m\<leftarrow>filter (\<lambda>m. first_bin xedges muedges los (mincell f) m = k) (all_modes f). xnorm m) +
       (\<Sum>m\<leftarrow>filter (\<lambda>m. mirror_bin xedges muedges los (mincell f) m = k)
                 (filter (\<lambda>m. 0 < last (xvec m)) (all_modes f)). xnorm m)
     \<and> musum (accumulate f xedges muedges los unique_ells antisymmetric) ! k =
       (\<Sum>m\<leftarrow>filter (\<lambda>m. first_bin xedges muedges los (mincell f) m = k) (all_modes f).
           mu_of los (mincell f) m) +
       (\<Sum>m\<leftarrow>filter (\<lambda>m. mirror_bin xedges muedges los (mincell f) m = k)
                 (filter (\<lambda>m. 0 < last (xvec m)) (all_modes f)). - mu_of los (mincell f) m)
     \<and> ysum (accumulate f xedges muedges los unique_ells antisymmetric) ! ill ! k =
       (\<Sum>m\<leftarrow>filter (\<lambda>m. first_bin xedges muedges los (mincell f) m = k) (all_modes f).
           of_real (weight (unique_ells ! ill) (mu_of los (mincell f) m)) * yval m) +
       (\<Sum>m\<leftarrow>filter (\<lambda>m. mirror_bin xedges muedges los (mincell f) m = k)
                 (filter (\<lambda>m. 0 < last (xvec m)) (all_modes f)).
           (if antisymmetric then - 1 else 1) *
           of_real (weight (unique_ells ! ill) (- mu_of los (mincell f) m)) * cnj (yval m))
     \<and> sum_list (nsum (accumulate f xedges muedges los unique_ells antisymmetric)) =
       length (all_modes f) + length (filter (\<lambda>m. 0 < last (xvec m)) (all_modes f))"
proof -
  have hs: "hermitian_symmetric f antisymmetric \<noteq> 0"
    using assms(1) by (simp add: hs_compressed)
  have hv: "(of_int (hermitian_symmetric f antisymmetric) :: complex)
            = (if antisymmetric then - 1 else 1)"
    using assms(1) by (simp add: hs_compressed)
  have "nsum (accumulate f xedges muedges los unique_ells antisymmetric) ! k =
       length (filter (\<lambda>m. first_bin xedges muedges los (mincell f) m = k) (all_modes f)) +
       length (filter (\<lambda>m. mirror_bin xedges muedges los (mincell f) m = k)
                 (filter (\<lambda>m. 0 < last (xvec m)) (all_modes f)))
     \<and> xsum (accumulate f xedges muedges los unique_ells antisymmetric) ! k =
       (\<Sum>m\<leftarrow>filter (\<lambda>m. first_bin xedges muedges los (mincell f) m = k) (all_modes f). xnorm m) +
       (\<Sum>m\<leftarrow>filter (\<lambda>m. mirror_bin xedges muedges los (mincell f) m = k)
                 (filter (\<lambda>m. 0 < last (xvec m)) (all_modes f)). xnorm m)
     \<and> musum (accumulate f xedges muedges los unique_ells antisymmetric) ! k =
       (\<Sum>m\<leftarrow>filter (\<lambda>m. first_bin xedges muedges los (mincell f) m = k) (all_modes f).
           mu_of los (mincell f) m) +
       (\<Sum>m\<leftarrow>filter (\<lambda>m. mirror_bin xedges muedges los (mincell f) m = k)
                 (filter (\<lambda>m. 0 < last (xvec m)) (all_modes f)). - mu_of los (mincell f) m)
     \<and> ysum (accumulate f xedges muedges los unique_ells antisymmetric) ! ill ! k =
       (\<Sum>m\<leftarrow>filter (\<lambda>m. first_bin xedges muedges los (mincell f) m = k) (all_modes f).
           of_real (weight (unique_ells ! ill) (mu_of los (mincell f) m)) * yval m) +
       (\<Sum>m\<leftarrow>filter (\<lambda>m. mirror_bin xedges muedges los (mincell f) m = k)
                 (filter (\<lambda>m. 0 < last (xvec m)) (all_modes f)).
           (if antisymmetric then - 1 else 1) *
           of_real (weight (unique_ells ! ill) (- mu_of los (mincell f) m)) * cnj (yval m))"
    unfolding accumulate_mk mk_acc_def
    using assms(2,3) hs
    by (simp add: tab_nth contrib_def length_as_sum hv nonsingular_pos)
  then show ?thesis using nsum_total [OF assms(1)] by blast
qed

lemma mincell_f0: "mincell f0 = 1"
  by (simp add: mincell_def cellsize_def f0_def)

lemma all_modes_f0: "all_modes f0 = [(0, 0, 0, 3), (0, 0, 1, \<i>)]"
  by (simp add: all_modes_def slab_def f0_def upt_rec)

lemma bins_f0:
  "first_bin [0, 2] [-1, 0, 1] [0, 0, 1] 1 (0, 0, 0, 3) = 19"
  "first_bin [0, 2] [-1, 0, 1] [0, 0, 1] 1 (0, 0, 1, \<i>) = 7"
  "mirror_bin [0, 2] [-1, 0, 1] [0, 0, 1] 1 (0, 0, 1, \<i>) = 6"
  by (simp_all add: first_bin_def mirror_bin_def multi_index_def ravel_def dig_x_def dig_mu_def
      mask_zero_def xnorm_def xvec_def mu_of_def digitize_def nbins_def)

lemma last_f0: "last (xvec (0, 0, 0, 3)) = 0" "last (xvec (0, 0, 1, \<i>)) = 1"
  by (simp_all add: xvec_def)

theorem mirror_pass_accumulation_witness:
  "compressed f0 \<and> 6 < hsize [0, 2] [-1, 0, 1] \<and> 7 < hsize [0, 2] [-1, 0, 1]
   \<and> 19 < hsize [0, 2] [-1, 0, 1] \<and> (0::nat) < length [0::int]
   \<and> all_modes f0 = [(0, 0, 0, 3), (0, 0, 1, \<i>)]
   \<and> nsum (accumulate f0 [0, 2] [-1, 0, 1] [0, 0, 1] [0] False) ! 19 = 1
   \<and> ysum (accumulate f0 [0, 2] [-1, 0, 1] [0, 0, 1] [0] False) ! 0 ! 19 = 3
   \<and> nsum (accumulate f0 [0, 2] [-1, 0, 1] [0, 0, 1] [0] False) ! 7 = 1
   \<and> ysum (accumulate f0 [0, 2] [-1, 0, 1] [0, 0, 1] [0] False) ! 0 ! 7 = \<i>
   \<and> nsum (accumulate f0 [0, 2] [-1, 0, 1] [0, 0, 1] [0] False) ! 6 = 1
   \<and> ysum (accumulate f0 [0, 2] [-1, 0, 1] [0, 0, 1] [0] False) ! 0 ! 6 = - \<i>
   \<and> ysum (accumulate f0 [0, 2] [-1, 0, 1] [0, 0, 1] [0] True) ! 0 ! 6 = \<i>
   \<and> sum_list (nsum (accumulate f0 [0, 2] [-1, 0, 1] [0, 0, 1] [0] False)) = 3"
proof -
  have c: "compressed f0" by (simp add: f0_def)
  have k: "6 < hsize [0, 2] [-1, 0, 1]" "7 < hsize [0, 2] [-1, 0, 1]" "19 < hsize [0, 2] [-1, 0, 1]"
    by (simp_all add: hsize_def nbins_def)
  have i: "(0::nat) < length [0::int]" by simp
  note s = mincell_f0 all_modes_f0 bins_f0 last_f0 weight_def yval_def
  have 6: "nsum (accumulate f0 [0, 2] [-1, 0, 1] [0, 0, 1] [0] False) ! 6 = 1
       \<and> ysum (accumulate f0 [0, 2] [-1, 0, 1] [0, 0, 1] [0] False) ! 0 ! 6 = - \<i>
       \<and> sum_list (nsum (accumulate f0 [0, 2] [-1, 0, 1] [0, 0, 1] [0] False)) = 3"
    using mirror_pass_accumulation [OF c k(1) i, of "[0, 0, 1]" False] by (simp add: s)
  have a6: "ysum (accumulate f0 [0, 2] [-1, 0, 1] [0, 0, 1] [0] True) ! 0 ! 6 = \<i>"
    using mirror_pass_accumulation [OF c k(1) i, of "[0, 0, 1]" True] by (simp add: s)
  have 7: "nsum (accumulate f0 [0, 2] [-1, 0, 1] [0, 0, 1] [0] False) ! 7 = 1
       \<and> ysum (accumulate f0 [0, 2] [-1, 0, 1] [0, 0, 1] [0] False) ! 0 ! 7 = \<i>"
    using mirror_pass_accumulation [OF c k(2) i, of "[0, 0, 1]" False] by (simp add: s)
  have 19: "nsum (accumulate f0 [0, 2] [-1, 0, 1] [0, 0, 1] [0] False) ! 19 = 1
       \<and> ysum (accumulate f0 [0, 2] [-1, 0, 1] [0, 0, 1] [0] False) ! 0 ! 19 = 3"
    using mirror_pass_accumulation [OF c k(3) i, of "[0, 0, 1]" False] by (simp add: s)
  from c k i 6 a6 7 19 show ?thesis by (simp add: all_modes_f0)
qed

section \<open>Zero bin, Nyquist mask and averages\<close>

lemma zero_routing:
  "mask_zero mc m \<longleftrightarrow> multi_index xe me mc m mu = zero_bin xe me"
proof (cases "mask_zero mc m")
  case True
  then show ?thesis by (simp add: multi_index_def zero_bin_def dig_x_def dig_mu_def)
next
  case False
  have "dig_x xe mc m \<noteq> nbins xe + 2"
    using False digitize_le_nbins [of "xnorm m" xe] by (simp add: dig_x_def)
  then have "multi_index xe me mc m mu \<noteq> zero_bin xe me"
    unfolding multi_index_def zero_bin_def
    using ravel_inj [of "dig_mu me mc m mu" me "nbins me + 2" "dig_x xe mc m" "nbins xe + 2"]
      dig_mu_less [of me mc m mu] by simp
  with False show ?thesis by simp
qed

lemma set_rows_nth:
  "k < length arr \<Longrightarrow> set_rows ncol rows v arr ! k = (if k div ncol \<in> set rows then v else arr ! k)"
  by (simp add: set_rows_def)

lemma length_set_rows: "length (set_rows ncol rows v arr) = length arr"
  by (simp add: set_rows_def)

lemma mask_rows_less: "j \<in> set (mask_beyond_nyq f xe) \<Longrightarrow> j < length xe"
  by (simp add: mask_beyond_nyq_def)

lemma acc_lengths:
  "length (nsum (accumulate f xe me los ue anti)) = hsize xe me"
  "length (xsum (accumulate f xe me los ue anti)) = hsize xe me"
  "length (musum (accumulate f xe me los ue anti)) = hsize xe me"
  "length (ysum (accumulate f xe me los ue anti)) = length ue"
  "ill < length ue \<Longrightarrow> length (ysum (accumulate f xe me los ue anti) ! ill) = hsize xe me"
  by (simp_all add: accumulate_mk mk_acc_def tab_def)

lemma reduced_lengths:
  "length (nS (reduced_sums f xe me los ue anti)) = hsize xe me"
  "length (xS (reduced_sums f xe me los ue anti)) = hsize xe me"
  "length (muS (reduced_sums f xe me los ue anti)) = hsize xe me"
  "length (yS (reduced_sums f xe me los ue anti)) = length ue"
  "ill < length ue \<Longrightarrow> length (yS (reduced_sums f xe me los ue anti) ! ill) = hsize xe me"
  by (simp_all add: reduced_sums_def masked_sums_def Let_def length_set_rows acc_lengths)

lemma zero_bin_less: "zero_bin xe me < hsize xe me"
  unfolding zero_bin_def by (rule ravel_less) simp_all

lemma dig_zero_less: "dig_zero xe me < hsize xe me"
  unfolding dig_zero_def using digitize_le_nbins [of 0 xe] digitize_le_nbins [of 0 me]
  by (intro ravel_less) simp_all

lemma dig_zero_neq: "dig_zero xe me \<noteq> zero_bin xe me"
  unfolding dig_zero_def zero_bin_def
  using digitize_le_nbins [of 0 xe] digitize_le_nbins [of 0 me]
    ravel_inj [of "digitize 0 me" me "nbins me + 2" "digitize 0 xe" "nbins xe + 2"]
  by simp

lemma zero_row_unmasked: "zero_bin xe me div (nbins me + 3) \<notin> set (mask_beyond_nyq f xe)"
proof
  assume "zero_bin xe me div (nbins me + 3) \<in> set (mask_beyond_nyq f xe)"
  then have "nbins xe + 2 \<in> set (mask_beyond_nyq f xe)"
    by (simp add: zero_bin_def ravel_div)
  from mask_rows_less [OF this] show False by (simp add: nbins_def)
qed

lemma unique_ells_ne: "unique_ells_of ls \<noteq> []"
proof -
  have "0 \<in> set (unique_ells_of ls)" by (simp add: unique_ells_of_def)
  then show ?thesis by auto
qed

lemma unique_ells_hd:
  assumes "\<not> (\<exists>ell \<in> set (unique_ells_of ls). ell < 0)"
  shows "unique_ells_of ls ! 0 = 0"
proof -
  have s: "sorted (unique_ells_of ls)" by (simp add: unique_ells_of_def)
  have m: "0 \<in> set (unique_ells_of ls)" by (simp add: unique_ells_of_def)
  obtain x xs where e: "unique_ells_of ls = x # xs" using unique_ells_ne by (cases "unique_ells_of ls") auto
  have "x \<le> 0" using s m e by auto
  moreover have "0 \<le> x" using assms e by auto
  ultimately show ?thesis using e by simp
qed

lemma reduced_zero:
  assumes "ill < length ue"
  shows "yS (reduced_sums f xe me los ue anti) ! ill ! zero_bin xe me
         = Fin (ysum (accumulate f xe me los ue anti) ! ill ! zero_bin xe me)"
  using assms zero_bin_less [of xe me] zero_row_unmasked [of xe me f]
  by (simp add: reduced_sums_def masked_sums_def Let_def acc_lengths set_rows_nth)

lemma fold_zero_n:
  assumes "length (nS s) = hsize xe me" and "k < hsize xe me"
  shows "nS (fold_zero xe me ex s) ! k =
         (if \<not> ex \<and> k = dig_zero xe me then nS s ! k + nS s ! zero_bin xe me else nS s ! k)"
  using assms by (simp add: fold_zero_def Let_def nth_list_update)

lemma fold_zero_x:
  assumes "length (xS s) = hsize xe me" and "k < hsize xe me"
  shows "xS (fold_zero xe me ex s) ! k =
         (if \<not> ex \<and> k = dig_zero xe me then fl_add (xS s ! k) (xS s ! zero_bin xe me) else xS s ! k)"
  using assms by (simp add: fold_zero_def Let_def nth_list_update)

lemma fold_zero_mu:
  assumes "length (muS s) = hsize xe me" and "k < hsize xe me"
  shows "muS (fold_zero xe me ex s) ! k =
         (if \<not> ex \<and> k = dig_zero xe me then fl_add (muS s ! k) (muS s ! zero_bin xe me) else muS s ! k)"
  using assms by (simp add: fold_zero_def Let_def nth_list_update)

lemma fold_zero_y:
  assumes "ill < length (yS s)" and "length (yS s ! ill) = hsize xe me" and "k < hsize xe me"
  shows "yS (fold_zero xe me ex s) ! ill ! k =
         (if \<not> ex \<and> k = dig_zero xe me then fl_add (yS s ! ill ! k) (yS s ! ill ! zero_bin xe me)
          else yS s ! ill ! k)"
  using assms by (simp add: fold_zero_def Let_def nth_list_update)


lemma index_of_less: "x \<in> set xs \<Longrightarrow> index_of xs x < length xs"
  unfolding index_of_def
  by (induction xs) auto

lemma upt1_nth: "b < n \<Longrightarrow> inner n ! b = Suc b"
  unfolding inner_def by (simp add: nth_upt del: upt_Suc)

lemma length_inner: "length (inner n) = n"
  by (simp add: inner_def del: upt_Suc)

lemma project_to_basis_Inr:
  assumes "project_to_basis f xe me los ls anti ex = Inr (r, rp)"
  shows "r = averages2d xe me (fold_zero xe me ex (reduced_sums f xe me los (unique_ells_of (the_ells ls)) anti))"
    and "rp = (if ls \<noteq> None then Some (averages_poles xe me (unique_ells_of (the_ells ls)) (the_ells ls)
                 (fold_zero xe me ex (reduced_sums f xe me los (unique_ells_of (the_ells ls)) anti))) else None)"
    and "\<not> (\<exists>ell \<in> set (unique_ells_of (the_ells ls)). ell < 0)"
  using assms by (auto simp: project_to_basis_def Let_def split: if_splits)

lemma dig_zero_iff:
  assumes "b < nbins xe" and "c < nbins me"
  shows "ravel me (Suc b) (Suc c) = dig_zero xe me \<longleftrightarrow> Suc b = digitize 0 xe \<and> Suc c = digitize 0 me"
  unfolding dig_zero_def
  using assms digitize_le_nbins [of 0 me] ravel_inj [of "Suc c" me "digitize 0 me" "Suc b" "digitize 0 xe"]
  by simp

lemma weight_0: "weight 0 mu = 1"
  by (simp add: weight_def)

lemma zero_bin_content:
  assumes "ue ! 0 = 0" and "0 < length ue"
  shows "nsum (accumulate f xe me los ue anti) ! zero_bin xe me =
        length (filter (\<lambda>m. xnorm m < Min (set (cellsize f)) / 2) (all_modes f)) +
        (if compressed f
         then length (filter (\<lambda>m. 0 < last (xvec m) \<and> xnorm m < Min (set (cellsize f)) / 2)
                (all_modes f))
         else 0)"
    and "ysum (accumulate f xe me los ue anti) ! 0 ! zero_bin xe me =
        (\<Sum>m\<leftarrow>filter (\<lambda>m. xnorm m < Min (set (cellsize f)) / 2) (all_modes f). yval m) +
        (if compressed f
         then (\<Sum>m\<leftarrow>filter (\<lambda>m. 0 < last (xvec m) \<and> xnorm m < Min (set (cellsize f)) / 2)
                      (all_modes f). (if anti then - 1 else 1) * cnj (yval m))
         else 0)"
proof -
  let ?zp = "\<lambda>m. xnorm m < Min (set (cellsize f)) / 2"
  have r1: "(first_bin xe me los (mincell f) m = zero_bin xe me) = ?zp m" for m
    using zero_routing [of "mincell f" m xe me "mu_of los (mincell f) m"]
    by (simp add: first_bin_def mask_zero_def mincell_def)
  have r2: "(mirror_bin xe me los (mincell f) m = zero_bin xe me) = ?zp m" for m
    using zero_routing [of "mincell f" m xe me "- mu_of los (mincell f) m"]
    by (simp add: mirror_bin_def mask_zero_def mincell_def)
  have hs: "(hermitian_symmetric f anti = 0) = (\<not> compressed f)"
    by (simp add: hermitian_symmetric_def)
  have hv: "compressed f \<Longrightarrow> (of_int (hermitian_symmetric f anti) :: complex) = (if anti then - 1 else 1)"
    by (simp add: hs_compressed)
  show "nsum (accumulate f xe me los ue anti) ! zero_bin xe me =
        length (filter ?zp (all_modes f)) +
        (if compressed f
         then length (filter (\<lambda>m. 0 < last (xvec m) \<and> ?zp m) (all_modes f))
         else 0)"
    unfolding accumulate_mk mk_acc_def
    using zero_bin_less [of xe me]
    by (simp add: tab_nth contrib_def length_as_sum r1 r2 hs nonsingular_pos)
  show "ysum (accumulate f xe me los ue anti) ! 0 ! zero_bin xe me =
        (\<Sum>m\<leftarrow>filter ?zp (all_modes f). yval m) +
        (if compressed f
         then (\<Sum>m\<leftarrow>filter (\<lambda>m. 0 < last (xvec m) \<and> ?zp m)
                      (all_modes f). (if anti then - 1 else 1) * cnj (yval m))
         else 0)"
    unfolding accumulate_mk mk_acc_def
    using zero_bin_less [of xe me] assms
    by (simp add: tab_nth contrib_def r1 r2 hs hv nonsingular_pos weight_0)
qed

text \<open>
  C3. A mode is routed to the dedicated zero bin (row \<open>nx + 2\<close>, column \<open>nmu + 2\<close>)
  exactly when its norm is strictly below half the smallest cell size, the minimum of
  \<^verbatim>\<open>cellsize\<close> over the axes, and that bin is none of the ordinary bins: the zero bin
  counts the stored modes below that threshold (for a compressed field, those of
  positive frequency along the last axis a second time) and sums their field values.
  Unless \<open>exclude_zero\<close>, the count and the sums of the zero
  bin are added to the bin that \<open>digitize\<close> gives to the value \<open>0\<close> on both axes, and to
  no other bin, before the averages are taken. The monopole sum of the zero bin is
  returned apart as \<open>zero2d\<close>, and per requested order as \<open>poles_zero\<close>, whatever
  \<open>exclude_zero\<close> is.
\<close>

theorem zero_bin_routed_and_folded:
  assumes res: "project_to_basis f xe me los ls anti ex = Inr (r, rp)"
    and b: "b < nbins xe" and c: "c < nbins me"
  shows
    "(xnorm m < Min (set (cellsize f)) / 2 \<longleftrightarrow>
        multi_index xe me (mincell f) m mu = zero_bin xe me)
     \<and> zero_bin xe me \<noteq> ravel me (Suc b) (Suc c)
     \<and> nsum (accumulate f xe me los (unique_ells_of (the_ells ls)) anti) ! zero_bin xe me =
        length (filter (\<lambda>m. xnorm m < Min (set (cellsize f)) / 2) (all_modes f)) +
        (if compressed f
         then length (filter (\<lambda>m. 0 < last (xvec m) \<and> xnorm m < Min (set (cellsize f)) / 2)
                (all_modes f))
         else 0)
     \<and> ysum (accumulate f xe me los (unique_ells_of (the_ells ls)) anti) ! 0 ! zero_bin xe me =
        (\<Sum>m\<leftarrow>filter (\<lambda>m. xnorm m < Min (set (cellsize f)) / 2) (all_modes f). yval m) +
        (if compressed f
         then (\<Sum>m\<leftarrow>filter (\<lambda>m. 0 < last (xvec m) \<and> xnorm m < Min (set (cellsize f)) / 2)
                      (all_modes f). (if anti then - 1 else 1) * cnj (yval m))
         else 0)
     \<and> n2d r ! b ! c =
        (if \<not> ex \<and> Suc b = digitize 0 xe \<and> Suc c = digitize 0 me
         then cell me (nS (reduced_sums f xe me los (unique_ells_of (the_ells ls)) anti)) (Suc b) (Suc c)
              + nS (reduced_sums f xe me los (unique_ells_of (the_ells ls)) anti) ! zero_bin xe me
         else cell me (nS (reduced_sums f xe me los (unique_ells_of (the_ells ls)) anti)) (Suc b) (Suc c))
     \<and> xmean2d r ! b ! c = fl_div
        (if \<not> ex \<and> Suc b = digitize 0 xe \<and> Suc c = digitize 0 me
         then fl_add (cell me (xS (reduced_sums f xe me los (unique_ells_of (the_ells ls)) anti)) (Suc b) (Suc c))
                (xS (reduced_sums f xe me los (unique_ells_of (the_ells ls)) anti) ! zero_bin xe me)
         else cell me (xS (reduced_sums f xe me los (unique_ells_of (the_ells ls)) anti)) (Suc b) (Suc c))
        (n2d r ! b ! c)
     \<and> mumean2d r ! b ! c = fl_div
        (if \<not> ex \<and> Suc b = digitize 0 xe \<and> Suc c = digitize 0 me
         then fl_add (cell me (muS (reduced_sums f xe me los (unique_ells_of (the_ells ls)) anti)) (Suc b) (Suc c))
                (muS (reduced_sums f xe me los (unique_ells_of (the_ells ls)) anti) ! zero_bin xe me)
         else cell me (muS (reduced_sums f xe me los (unique_ells_of (the_ells ls)) anti)) (Suc b) (Suc c))
        (n2d r ! b ! c)
     \<and> y2d r ! b ! c = fl_div
        (if \<not> ex \<and> Suc b = digitize 0 xe \<and> Suc c = digitize 0 me
         then fl_add (cell me (yS (reduced_sums f xe me los (unique_ells_of (the_ells ls)) anti) ! 0) (Suc b) (Suc c))
                (yS (reduced_sums f xe me los (unique_ells_of (the_ells ls)) anti) ! 0 ! zero_bin xe me)
         else cell me (yS (reduced_sums f xe me los (unique_ells_of (the_ells ls)) anti) ! 0) (Suc b) (Suc c))
        (n2d r ! b ! c)
     \<and> unique_ells_of (the_ells ls) ! 0 = 0
     \<and> zero2d r = Fin (ysum (accumulate f xe me los (unique_ells_of (the_ells ls)) anti) ! 0 ! zero_bin xe me)
     \<and> (\<forall>p. rp = Some p \<longrightarrow> poles_zero p =
          map (\<lambda>ell. Fin (ysum (accumulate f xe me los (unique_ells_of (the_ells ls)) anti)
                            ! index_of (unique_ells_of (the_ells ls)) ell ! zero_bin xe me))
            (the_ells ls))"
proof -
  let ?ue = "unique_ells_of (the_ells ls)"
  let ?S = "reduced_sums f xe me los ?ue anti"
  let ?k = "ravel me (Suc b) (Suc c)"
  note R = project_to_basis_Inr [OF res]
  have k: "?k < hsize xe me" using b c by (intro ravel_less) simp_all
  have ue0: "0 < length ?ue" using unique_ells_ne [of "the_ells ls"] by simp
  have z: "zero_bin xe me \<noteq> ?k"
    unfolding zero_bin_def using b c ravel_inj [of "nbins me + 2" me "Suc c" "nbins xe + 2" "Suc b"]
    by simp
  have n: "n2d r ! b ! c = nS (fold_zero xe me ex ?S) ! ?k"
    using b c by (simp add: R(1) averages2d_def Let_def cell_def upt1_nth length_inner)
  have x: "xmean2d r ! b ! c = fl_div (xS (fold_zero xe me ex ?S) ! ?k) (n2d r ! b ! c)"
    using b c by (simp add: R(1) averages2d_def Let_def cell_def upt1_nth length_inner)
  have mu: "mumean2d r ! b ! c = fl_div (muS (fold_zero xe me ex ?S) ! ?k) (n2d r ! b ! c)"
    using b c by (simp add: R(1) averages2d_def Let_def cell_def upt1_nth length_inner)
  have y: "y2d r ! b ! c = fl_div (yS (fold_zero xe me ex ?S) ! 0 ! ?k) (n2d r ! b ! c)"
    using b c by (simp add: R(1) averages2d_def Let_def cell_def upt1_nth length_inner)
  have yl: "0 < length (yS ?S)" "length (yS ?S ! 0) = hsize xe me"
    using ue0 by (simp_all add: reduced_lengths)
  have fz: "yS (fold_zero xe me ex ?S) ! ill ! zero_bin xe me = yS ?S ! ill ! zero_bin xe me"
    if "ill < length ?ue" for ill
    using that zero_bin_less [of xe me] dig_zero_neq [of xe me]
    by (subst fold_zero_y) (auto simp: reduced_lengths)
  have z2: "zero2d r = Fin (ysum (accumulate f xe me los ?ue anti) ! 0 ! zero_bin xe me)"
    using ue0 by (simp add: R(1) averages2d_def Let_def fz reduced_zero)
  have pz: "poles_zero p = map (\<lambda>ell. Fin (ysum (accumulate f xe me los ?ue anti)
                            ! index_of ?ue ell ! zero_bin xe me)) (the_ells ls)"
    if "rp = Some p" for p
  proof -
    have p: "p = averages_poles xe me ?ue (the_ells ls) (fold_zero xe me ex ?S)"
      using that R(2) by (simp split: if_splits)
    have "index_of ?ue ell < length ?ue" if "ell \<in> set (the_ells ls)" for ell
      using that by (intro index_of_less) (simp add: unique_ells_of_def)
    then show ?thesis
      by (simp add: p averages_poles_def Let_def comp_def fz reduced_zero)
  qed
  have rt: "xnorm m < Min (set (cellsize f)) / 2 \<longleftrightarrow>
        multi_index xe me (mincell f) m mu = zero_bin xe me"
    using zero_routing [of "mincell f" m xe me mu] by (simp add: mask_zero_def mincell_def)
  note zc = zero_bin_content [OF unique_ells_hd [OF R(3)] ue0, of f xe me los anti]
  show ?thesis
    using rt z k pz z2 unique_ells_hd [OF R(3)] zc
    by (simp add: n x mu y fold_zero_n fold_zero_x fold_zero_mu fold_zero_y [OF yl]
        reduced_lengths dig_zero_iff [OF b c] cell_def)
qed

lemma unique_ells_0: "unique_ells_of [0] = [0]"
  by (simp add: unique_ells_of_def)

lemma nbins_f0: "nbins [0, 2] = 1" "nbins [-1, 0, 1] = 2" "hsize [0, 2] [-1, 0, 1] = 20"
  "zero_bin [0, 2] [-1, 0, 1] = 19"
  by (simp_all add: nbins_def hsize_def zero_bin_def ravel_def)

lemma cellsize_f3: "cellsize f3 = [1, 1, 1 / 4]"
  by (simp add: cellsize_def f3_def)

lemma mincell_f3: "mincell f3 = 1 / 4"
  by (simp add: mincell_def cellsize_f3)

lemma all_modes_f3: "all_modes f3 = [(0, 0, 0, 3), (0, 0, 1 / 4, \<i>)]"
  by (simp add: all_modes_def slab_def f3_def upt_rec)

lemma xnorm_f3: "xnorm (0, 0, 0, y) = 0" "xnorm (0, 0, 1 / 4, y) = 1 / 4"
proof -
  show "xnorm (0, 0, 0, y) = 0" by (simp add: xnorm_def xvec_def)
  have "xnorm (0, 0, 1 / 4, y) = sqrt ((1 / 4) ^ 2)" by (simp add: xnorm_def xvec_def)
  also have "\<dots> = 1 / 4" using real_sqrt_abs [of "1 / 4"] by simp
  finally show "xnorm (0, 0, 1 / 4, y) = 1 / 4" .
qed

lemma last_f3: "last (xvec (0, 0, 0, y)) = 0" "last (xvec (0, 0, 1 / 4, y)) = 1 / 4"
  by (simp_all add: xvec_def)

lemma nbins_f3: "nbins [0, 2 / 5, 1] = 2" "hsize [0, 2 / 5, 1] [-1, 0, 1] = 25"
  "zero_bin [0, 2 / 5, 1] [-1, 0, 1] = 24"
  by (simp_all add: nbins_def hsize_def zero_bin_def ravel_def)

lemma bins_f3:
  "multi_index [0, 2 / 5, 1] [-1, 0, 1] (1 / 4) (0, 0, 0, 3) mu = 24"
  "first_bin [0, 2 / 5, 1] [-1, 0, 1] [0, 0, 1] (1 / 4) (0, 0, 0, 3) = 24"
  "first_bin [0, 2 / 5, 1] [-1, 0, 1] [0, 0, 1] (1 / 4) (0, 0, 1 / 4, \<i>) = 7"
  "mirror_bin [0, 2 / 5, 1] [-1, 0, 1] [0, 0, 1] (1 / 4) (0, 0, 1 / 4, \<i>) = 6"
  by (simp_all add: first_bin_def mirror_bin_def multi_index_def ravel_def dig_x_def dig_mu_def
      mask_zero_def xnorm_f3 xvec_def mu_of_def digitize_def nbins_def)

lemma nyq_f3: "nyq f3 = 1 / 2"
proof -
  have "Nmesh f3 = [4, 4, 4]" by (simp add: f3_def)
  then show ?thesis by (simp add: nyq_def cellsize_f3)
qed

lemma mask_f3: "mask_beyond_nyq f3 [0, 2 / 5, 1] = [2]"
  by (simp add: mask_beyond_nyq_def nyq_f3 upt_rec)

lemma f3_sums:
  "nsum (accumulate f3 [0, 2 / 5, 1] [-1, 0, 1] [0, 0, 1] [0] False) ! 7 = 1"
  "nsum (accumulate f3 [0, 2 / 5, 1] [-1, 0, 1] [0, 0, 1] [0] False) ! 24 = 1"
  "xsum (accumulate f3 [0, 2 / 5, 1] [-1, 0, 1] [0, 0, 1] [0] False) ! 7 = 1 / 4"
  "xsum (accumulate f3 [0, 2 / 5, 1] [-1, 0, 1] [0, 0, 1] [0] False) ! 24 = 0"
  "ysum (accumulate f3 [0, 2 / 5, 1] [-1, 0, 1] [0, 0, 1] [0] False) ! 0 ! 7 = \<i>"
  "ysum (accumulate f3 [0, 2 / 5, 1] [-1, 0, 1] [0, 0, 1] [0] False) ! 0 ! 24 = 3"
  by (simp_all add: accumulate_mk mk_acc_def tab_nth nbins_f3 contrib_def mincell_f3 all_modes_f3
      bins_f3 nonsingular_def yval_def weight_def xnorm_f3 mu_of_def mask_zero_def xvec_def)

theorem zero_bin_routed_and_folded_witness:
  "\<exists>r rp. project_to_basis f3 [0, 2 / 5, 1] [-1, 0, 1] [0, 0, 1] (Some [0]) False False = Inr (r, rp)
     \<and> (0::nat) < nbins [0, 2 / 5, 1] \<and> (1::nat) < nbins [-1, 0, 1]
     \<and> all_modes f3 = [(0, 0, 0, 3), (0, 0, 1 / 4, \<i>)]
     \<and> Min (set (cellsize f3)) / 2 = 1 / 8
     \<and> xnorm (0, 0, 0, 3) = 0 \<and> xnorm (0, 0, 1 / 4, \<i>) = 1 / 4
     \<and> zero_bin [0, 2 / 5, 1] [-1, 0, 1] = 24
     \<and> multi_index [0, 2 / 5, 1] [-1, 0, 1] (mincell f3) (0, 0, 0, 3) 0 = 24
     \<and> multi_index [0, 2 / 5, 1] [-1, 0, 1] (mincell f3) (0, 0, 1 / 4, \<i>) 1 \<noteq> 24
     \<and> nsum (accumulate f3 [0, 2 / 5, 1] [-1, 0, 1] [0, 0, 1] [0] False) ! 24 = 1
     \<and> zero2d r = Fin 3 \<and> n2d r ! 0 ! 1 = 2 \<and> xmean2d r ! 0 ! 1 = Quot (1 / 8)
     \<and> y2d r ! 0 ! 1 = Quot ((3 + \<i>) / 2)"
proof -
  obtain r rp where
    e: "project_to_basis f3 [0, 2 / 5, 1] [-1, 0, 1] [0, 0, 1] (Some [0]) False False = Inr (r, rp)"
    by (simp add: project_to_basis_def Let_def the_ells_def unique_ells_0)
  have b: "(0::nat) < nbins [0, 2 / 5, 1]" and c: "(1::nat) < nbins [-1, 0, 1]"
    by (simp_all add: nbins_f3 nbins_f0)
  have d: "digitize 0 [0, 2 / 5, 1] = Suc 0" "digitize 0 [-1, 0, 1] = Suc (Suc 0)"
    by (simp_all add: digitize_def)
  have h: "Min (set (cellsize f3)) / 2 = 1 / 8" by (simp add: cellsize_f3)
  have m: "nS (reduced_sums f3 [0, 2 / 5, 1] [-1, 0, 1] [0, 0, 1] [0] False) ! 7 = 1"
    "nS (reduced_sums f3 [0, 2 / 5, 1] [-1, 0, 1] [0, 0, 1] [0] False) ! 24 = 1"
    "xS (reduced_sums f3 [0, 2 / 5, 1] [-1, 0, 1] [0, 0, 1] [0] False) ! 7 = Fin (1 / 4)"
    "xS (reduced_sums f3 [0, 2 / 5, 1] [-1, 0, 1] [0, 0, 1] [0] False) ! 24 = Fin 0"
    "yS (reduced_sums f3 [0, 2 / 5, 1] [-1, 0, 1] [0, 0, 1] [0] False) ! 0 ! 7 = Fin \<i>"
    "yS (reduced_sums f3 [0, 2 / 5, 1] [-1, 0, 1] [0, 0, 1] [0] False) ! 0 ! 24 = Fin 3"
    by (simp_all add: reduced_sums_def masked_sums_def Let_def set_rows_nth acc_lengths nbins_f3
        nbins_f0 mask_f3 f3_sums)
  from zero_bin_routed_and_folded [OF e b c, of "(0, 0, 0, 3)" 0]
  have 1: "multi_index [0, 2 / 5, 1] [-1, 0, 1] (mincell f3) (0, 0, 0, 3) 0 = 24"
    by (simp add: h xnorm_f3 nbins_f3)
  from zero_bin_routed_and_folded [OF e b c, of "(0, 0, 1 / 4, \<i>)" 1]
  have 2: "multi_index [0, 2 / 5, 1] [-1, 0, 1] (mincell f3) (0, 0, 1 / 4, \<i>) 1 \<noteq> 24
       \<and> nsum (accumulate f3 [0, 2 / 5, 1] [-1, 0, 1] [0, 0, 1] [0] False) ! 24 = 1
       \<and> zero2d r = Fin 3 \<and> n2d r ! 0 ! 1 = 2 \<and> xmean2d r ! 0 ! 1 = Quot (1 / 8)
       \<and> y2d r ! 0 ! 1 = Quot ((3 + \<i>) / 2)"
    by (simp add: the_ells_def unique_ells_0 h xnorm_f3 last_f3 all_modes_f3 yval_def nbins_f3
        nbins_f0 d cell_def ravel_def m f3_sums)
  from e b c h 1 2 show ?thesis by (simp add: all_modes_f3 xnorm_f3 nbins_f3)
qed

lemma Min_pointwise_le:
  fixes xs ys :: "real list"
  assumes "length xs = length ys" and "ys \<noteq> []" and "\<forall>i < length ys. xs ! i \<le> ys ! i"
  shows "Min (set xs) \<le> Min (set ys)"
proof -
  have "Min (set ys) \<in> set ys" using assms(2) by (intro Min_in) simp_all
  then obtain i where i: "i < length ys" "ys ! i = Min (set ys)" by (auto simp: in_set_conv_nth)
  have "Min (set xs) \<le> xs ! i" using i(1) assms(1) by (intro Min_le) simp_all
  also have "\<dots> \<le> ys ! i" using assms(3) i(1) by simp
  finally show ?thesis using i(2) by simp
qed

lemma nyq_le_spec:
  assumes "\<not> is_real f" and "length (Nmesh f) = length (BoxSize f)" and "BoxSize f \<noteq> []"
    and "\<forall>L \<in> set (BoxSize f). 0 < L"
  shows "nyq f \<le> nyquist_spec f"
  unfolding nyq_def nyquist_spec_def
proof (rule Min_pointwise_le)
  show "length (map2 (\<lambda>n c. real (n div 2) * c) (Nmesh f) (cellsize f))
        = length (map2 (\<lambda>n L. pi * real n / L) (Nmesh f) (BoxSize f))"
    using assms(1) by (simp add: cellsize_def)
  show "map2 (\<lambda>n L. pi * real n / L) (Nmesh f) (BoxSize f) \<noteq> []"
    using assms(2,3) by (cases "Nmesh f"; cases "BoxSize f") auto
  show "\<forall>i<length (map2 (\<lambda>n L. pi * real n / L) (Nmesh f) (BoxSize f)).
          map2 (\<lambda>n c. real (n div 2) * c) (Nmesh f) (cellsize f) ! i
          \<le> map2 (\<lambda>n L. pi * real n / L) (Nmesh f) (BoxSize f) ! i"
  proof (intro allI impI)
    fix i assume "i < length (map2 (\<lambda>n L. pi * real n / L) (Nmesh f) (BoxSize f))"
    then have i: "i < length (BoxSize f)" "i < length (Nmesh f)" by simp_all
    then have L: "0 < BoxSize f ! i" using assms(4) by simp
    have "2 * (Nmesh f ! i div 2) \<le> Nmesh f ! i" by simp
    then have "2 * real (Nmesh f ! i div 2) \<le> real (Nmesh f ! i)"
      by (metis of_nat_le_iff of_nat_mult of_nat_numeral)
    then have "pi * (2 * real (Nmesh f ! i div 2)) \<le> pi * real (Nmesh f ! i)"
      by (intro mult_left_mono) simp_all
    then have "pi * (2 * real (Nmesh f ! i div 2)) / BoxSize f ! i \<le> pi * real (Nmesh f ! i) / BoxSize f ! i"
      using L by (simp add: divide_right_mono)
    then show "map2 (\<lambda>n c. real (n div 2) * c) (Nmesh f) (cellsize f) ! i
          \<le> map2 (\<lambda>n L. pi * real n / L) (Nmesh f) (BoxSize f) ! i"
      using i assms(1) by (simp add: cellsize_def mult.commute mult.left_commute)
  qed
qed

lemma nyquist_spec_pos:
  assumes "length (Nmesh f) = length (BoxSize f)" and "BoxSize f \<noteq> []"
    and "\<forall>L \<in> set (BoxSize f). 0 < L" and "\<forall>n \<in> set (Nmesh f). 0 < n"
  shows "0 < nyquist_spec f"
proof -
  let ?ys = "map2 (\<lambda>n L. pi * real n / L) (Nmesh f) (BoxSize f)"
  have ne: "?ys \<noteq> []" using assms(1,2) by (cases "Nmesh f"; cases "BoxSize f") auto
  then have "Min (set ?ys) \<in> set ?ys" by (intro Min_in) simp_all
  then obtain n L where "(n, L) \<in> set (zip (Nmesh f) (BoxSize f))" "Min (set ?ys) = pi * real n / L"
    by auto
  moreover from this(1) have "n \<in> set (Nmesh f)" "L \<in> set (BoxSize f)"
    by (auto dest: set_zip_leftD set_zip_rightD)
  ultimately show ?thesis using assms(3,4) by (simp add: nyquist_spec_def)
qed

lemma averages2d_nth:
  assumes "project_to_basis f xe me los ls anti ex = Inr (r, rp)"
    and "b < nbins xe" and "c < nbins me"
  shows "n2d r ! b ! c = nS (fold_zero xe me ex (reduced_sums f xe me los (unique_ells_of (the_ells ls)) anti))
            ! ravel me (Suc b) (Suc c)"
    and "xmean2d r ! b ! c = fl_div (xS (fold_zero xe me ex (reduced_sums f xe me los (unique_ells_of (the_ells ls)) anti))
            ! ravel me (Suc b) (Suc c)) (n2d r ! b ! c)"
    and "mumean2d r ! b ! c = fl_div (muS (fold_zero xe me ex (reduced_sums f xe me los (unique_ells_of (the_ells ls)) anti))
            ! ravel me (Suc b) (Suc c)) (n2d r ! b ! c)"
    and "y2d r ! b ! c = fl_div (yS (fold_zero xe me ex (reduced_sums f xe me los (unique_ells_of (the_ells ls)) anti))
            ! 0 ! ravel me (Suc b) (Suc c)) (n2d r ! b ! c)"
  using assms(2,3)
  by (simp_all add: project_to_basis_Inr(1) [OF assms(1)] averages2d_def Let_def cell_def upt1_nth length_inner)

lemma reduced_masked:
  assumes "k < hsize xe me" and "k div (nbins me + 3) \<in> set (mask_beyond_nyq f xe)"
  shows "nS (reduced_sums f xe me los ue anti) ! k = 0"
    and "xS (reduced_sums f xe me los ue anti) ! k = NaN"
    and "muS (reduced_sums f xe me los ue anti) ! k = NaN"
    and "ill < length ue \<Longrightarrow> yS (reduced_sums f xe me los ue anti) ! ill ! k = NaN"
  using assms
  by (simp_all add: reduced_sums_def masked_sums_def Let_def set_rows_nth acc_lengths)

text \<open>
  C2, as amended. For a Fourier-space field (positive box and mesh sizes) and sorted
  \<open>x\<close>-edges, every output bin whose lower edge is at or beyond \<open>pi * N / boxsize\<close>,
  minimum over the axes, has mean \<open>x\<close>, mean \<open>mu\<close> and mean field value NaN and mode
  count \<open>0\<close>. The code masks from its own threshold \<open>(N div 2) * 2 * pi / boxsize\<close> on,
  which is never above \<open>pi * N / boxsize\<close>.
\<close>

theorem beyond_nyquist_invalid:
  assumes res: "project_to_basis f xe me los ls anti ex = Inr (r, rp)"
    and cf: "\<not> is_real f" and so: "sorted xe"
    and len: "length (Nmesh f) = length (BoxSize f)" and ne: "BoxSize f \<noteq> []"
    and Lpos: "\<forall>L \<in> set (BoxSize f). 0 < L" and Npos: "\<forall>n \<in> set (Nmesh f). 0 < n"
    and b: "b < nbins xe" and c: "c < nbins me"
    and beyond: "nyquist_spec f \<le> xe ! b"
  shows "xmean2d r ! b ! c = QNaN \<and> mumean2d r ! b ! c = QNaN \<and> y2d r ! b ! c = QNaN
         \<and> n2d r ! b ! c = 0"
proof -
  let ?ue = "unique_ells_of (the_ells ls)"
  let ?S = "reduced_sums f xe me los ?ue anti"
  let ?k = "ravel me (Suc b) (Suc c)"
  have k: "?k < hsize xe me" using b c by (intro ravel_less) simp_all
  have sb: "Suc b < length xe" using b by (simp add: nbins_def)
  have "xe ! b \<le> xe ! Suc b" using so sb by (intro sorted_nth_mono) simp_all
  with beyond nyq_le_spec [OF cf len ne Lpos] have "nyq f \<le> xe ! Suc b" by simp
  with sb have "Suc b \<in> set (mask_beyond_nyq f xe)" by (simp add: mask_beyond_nyq_def)
  then have row: "?k div (nbins me + 3) \<in> set (mask_beyond_nyq f xe)"
    using c by (simp add: ravel_div)
  have nz: "Suc b \<noteq> digitize 0 xe"
  proof
    assume "Suc b = digitize 0 xe"
    then have "xe ! b \<le> 0" by (intro digitize_lower) simp
    with beyond nyquist_spec_pos [OF len ne Lpos Npos] show False by simp
  qed
  then have kd: "?k \<noteq> dig_zero xe me" using dig_zero_iff [OF b c] by simp
  have ue0: "0 < length ?ue" using unique_ells_ne [of "the_ells ls"] by simp
  have yl: "0 < length (yS ?S)" "length (yS ?S ! 0) = hsize xe me"
    using ue0 by (simp_all add: reduced_lengths)
  note A = averages2d_nth [OF res b c]
  have n0: "n2d r ! b ! c = 0"
    using k kd by (simp add: A(1) fold_zero_n reduced_lengths reduced_masked(1) [OF k row])
  have "xmean2d r ! b ! c = QNaN"
    using k kd by (simp add: A(2) fold_zero_x reduced_lengths reduced_masked(2) [OF k row])
  moreover have "mumean2d r ! b ! c = QNaN"
    using k kd by (simp add: A(3) fold_zero_mu reduced_lengths reduced_masked(3) [OF k row])
  moreover have "y2d r ! b ! c = QNaN"
    using k kd ue0 by (simp add: A(4) fold_zero_y [OF yl] reduced_masked(4) [OF k row])
  ultimately show ?thesis using n0 by simp
qed

lemma nyquist_spec_f0: "nyquist_spec f0 = 1"
  by (simp add: nyquist_spec_def f0_def)

theorem beyond_nyquist_invalid_witness:
  "\<exists>r rp. project_to_basis f0 [0, 1, 2] [-1, 0, 1] [0, 0, 1] None False False = Inr (r, rp)
     \<and> \<not> is_real f0 \<and> sorted [0, 1, 2 :: real] \<and> length (Nmesh f0) = length (BoxSize f0)
     \<and> BoxSize f0 \<noteq> [] \<and> Min (set (BoxSize f0)) > 0 \<and> Min (set (Nmesh f0)) > 0
     \<and> (1::nat) < nbins [0, 1, 2] \<and> (0::nat) < nbins [-1, 0, 1]
     \<and> nyquist_spec f0 \<le> [0, 1, 2] ! 1
     \<and> xmean2d r ! 1 ! 0 = QNaN \<and> mumean2d r ! 1 ! 0 = QNaN \<and> y2d r ! 1 ! 0 = QNaN
     \<and> n2d r ! 1 ! 0 = 0"
proof -
  obtain r rp where
    e: "project_to_basis f0 [0, 1, 2] [-1, 0, 1] [0, 0, 1] None False False = Inr (r, rp)"
    by (simp add: project_to_basis_def Let_def the_ells_def unique_ells_of_def)
  have h: "\<not> is_real f0" "sorted [0, 1, 2 :: real]" "length (Nmesh f0) = length (BoxSize f0)"
    "BoxSize f0 \<noteq> []" "\<forall>L \<in> set (BoxSize f0). 0 < L" "\<forall>n \<in> set (Nmesh f0). 0 < n"
    "(1::nat) < nbins [0, 1, 2]" "(0::nat) < nbins [-1, 0, 1]"
    by (simp_all add: f0_def nbins_def)
  have h9: "nyquist_spec f0 \<le> [0, 1, 2] ! 1" by (simp add: nyquist_spec_f0)
  have m: "Min (set (BoxSize f0)) > 0" "Min (set (Nmesh f0)) > 0" by (simp_all add: f0_def)
  from beyond_nyquist_invalid [OF e h h9] e h h9 m show ?thesis by blast
qed

lemma mincell_fR: "mincell fR = 2"
  by (simp add: mincell_def cellsize_def fR_def)

lemma nyq_fR: "nyq fR = 4"
  by (simp add: nyq_def cellsize_def fR_def)

lemma mask_fR: "mask_beyond_nyq fR [0, 2, 3] = []"
  by (simp add: mask_beyond_nyq_def nyq_fR upt_rec)

lemma mode_fR: "(0, 0, 2, 1) \<in> set (all_modes fR)"
proof -
  have "(0, 0, 2, 1) \<in> set (slab fR 0)"
    unfolding slab_def fR_def
    by (auto intro!: bexI [of _ 0] bexI [of _ 1])
  then show ?thesis by (auto simp: all_modes_def fR_def)
qed

lemma bin_fR: "first_bin [0, 2, 3] [-1, 1] [0, 0, 1] 2 (0, 0, 2, 1) = 9"
  by (simp add: first_bin_def multi_index_def ravel_def dig_x_def dig_mu_def
      mask_zero_def xnorm_def xvec_def mu_of_def digitize_def nbins_def)

lemma nsum_fR: "nsum (accumulate fR [0, 2, 3] [-1, 1] [0, 0, 1] [0] False) ! 9 \<noteq> 0"
proof -
  have "filter (\<lambda>m. first_bin [0, 2, 3] [-1, 1] [0, 0, 1] 2 m = 9) (all_modes fR) \<noteq> []"
    using mode_fR bin_fR by (auto simp: filter_empty_conv)
  then show ?thesis
    by (simp add: accumulate_mk mk_acc_def tab_nth hsize_def nbins_def contrib_def mincell_fR
        length_as_sum)
qed

text \<open>
  C2 as stated fails for a real-space field, where the code takes the cell size
  \<open>boxsize / N\<close> and masks from \<open>(N div 2) * boxsize / N\<close> on: the bin \<open>[2, 3)\<close> has its
  lower edge beyond \<open>pi * N / boxsize = pi / 2\<close> and keeps a nonzero mode count.
\<close>

theorem beyond_nyquist_real_field_counterexample:
  "nyquist_spec fR \<le> [0, 2, 3] ! 1 \<and>
   (\<exists>r rp. project_to_basis fR [0, 2, 3] [-1, 1] [0, 0, 1] None False False = Inr (r, rp)
      \<and> n2d r ! 1 ! 0 \<noteq> 0)"
proof -
  have "pi * 4 / 8 \<le> (2::real)" using pi_less_4 by simp
  then have 1: "nyquist_spec fR \<le> [0, 2, 3] ! 1"
    by (simp add: nyquist_spec_def fR_def)
  obtain r rp where
    e: "project_to_basis fR [0, 2, 3] [-1, 1] [0, 0, 1] None False False = Inr (r, rp)"
    by (simp add: project_to_basis_def Let_def the_ells_def unique_ells_of_def)
  have b: "(1::nat) < nbins [0, 2, 3]" and c: "(0::nat) < nbins [-1, 1]"
    by (simp_all add: nbins_def)
  have k: "ravel [-1, 1] (Suc 1) (Suc 0) = 9" "(9::nat) < hsize [0, 2, 3] [-1, 1]"
    "dig_zero [0, 2, 3] [-1, 1] = 5"
    by (simp_all add: ravel_def nbins_def hsize_def dig_zero_def digitize_def)
  have u: "unique_ells_of (the_ells None) = [0]" by (simp add: the_ells_def unique_ells_of_def)
  have m: "nS (reduced_sums fR [0, 2, 3] [-1, 1] [0, 0, 1] [0] False) ! 9
        = nsum (accumulate fR [0, 2, 3] [-1, 1] [0, 0, 1] [0] False) ! 9"
    using k(2) by (simp add: reduced_sums_def masked_sums_def Let_def set_rows_nth acc_lengths mask_fR)
  have "n2d r ! 1 ! 0 = nS (fold_zero [0, 2, 3] [-1, 1] False
          (reduced_sums fR [0, 2, 3] [-1, 1] [0, 0, 1] [0] False)) ! 9"
    using averages2d_nth(1) [OF e b c] k(1) u by simp
  also have "\<dots> = nS (reduced_sums fR [0, 2, 3] [-1, 1] [0, 0, 1] [0] False) ! 9"
    using k(2,3) by (simp add: fold_zero_n reduced_lengths)
  finally have "n2d r ! 1 ! 0 \<noteq> 0" using m nsum_fR by simp
  with 1 e show ?thesis by blast
qed

section \<open>\<^verbatim>\<open>get_power\<close>\<close>

lemma null_zero_length: "length (power_zero_nonorm s) = length toret \<Longrightarrow> length (null_zero ops s toret) = length toret"
  by (simp add: null_zero_def split: option.splits)

lemma null_zero_nth:
  assumes "length (power_zero_nonorm s) = length toret" and "i < length toret"
  shows "length (null_zero ops s toret ! i) = length (toret ! i)"
    and "j < length (toret ! i) \<Longrightarrow> null_zero ops s toret ! i ! j =
       (if zero_index s = Some j
        then f_sub ops (toret ! i ! j) (f_div ops (power_zero_nonorm s ! i) (f_of_nat ops (nmodes s ! j)))
        else toret ! i ! j)"
  using assms by (auto simp: null_zero_def nth_list_update split: option.splits)

lemma wf_rows:
  assumes "wf_stat s" and "i < length (power_nonorm s)"
  shows "length (power_nonorm s ! i) = prod_list (shape s)"
    and "length (power_direct_nonorm s ! i) = prod_list (shape s)"
    and "length (power_direct_nonorm s) = length (power_nonorm s)"
    and "length (power_zero_nonorm s) = length (power_nonorm s)"
  using assms by (simp_all add: wf_stat_def list_all_length)

lemma base_get_power_nth:
  assumes wf: "wf_stat s" and i: "i < length (power_nonorm s)" and j: "j < prod_list (shape s)"
  shows "fst (base_get_power ops s ad rs nz dw cx) = s"
    and "length (snd (base_get_power ops s ad rs nz dw cx)) = length (power_nonorm s)"
    and "length (snd (base_get_power ops s ad rs nz dw cx) ! i) = prod_list (shape s)"
    and "snd (base_get_power ops s ad rs nz dw cx) ! i ! j =
      (let v = entry_direct ops s ad i j;
           v = (if rs then f_sub ops v (shotnoise_nonorm s) else v);
           v = entry_zero ops s nz i j v;
           v = (if dw then f_div ops v (wnorm s) else v)
       in if \<not> cx \<and> iscomplexobj s then f_re ops v else v)"
proof -
  note r = wf_rows [OF wf i]
  define t1 where "t1 = (if ad then map2 (map2 (f_add ops)) (power_nonorm s) (power_direct_nonorm s) else power_nonorm s)"
  define t2 where "t2 = (if rs then map (map (\<lambda>x. f_sub ops x (shotnoise_nonorm s))) t1 else t1)"
  define t3 where "t3 = (if nz then null_zero ops s t2 else t2)"
  define t4 where "t4 = (if dw then map (map (\<lambda>x. f_div ops x (wnorm s))) t3 else t3)"
  define t5 where "t5 = (if \<not> cx \<and> iscomplexobj s then map (map (f_re ops)) t4 else t4)"
  have bgp: "base_get_power ops s ad rs nz dw cx = (s, t5)"
    by (simp add: base_get_power_def Let_def t1_def t2_def t3_def t4_def t5_def)
  have l1: "length t1 = length (power_nonorm s)" using r by (simp add: t1_def)
  have e1: "length (t1 ! i) = prod_list (shape s)" "t1 ! i ! j = entry_direct ops s ad i j"
    using r i j by (simp_all add: entry_direct_def t1_def)
  have l2: "length t2 = length (power_nonorm s)" using l1 by (simp add: t2_def)
  have e2: "length (t2 ! i) = prod_list (shape s)"
       "t2 ! i ! j = (if rs then f_sub ops (entry_direct ops s ad i j) (shotnoise_nonorm s) else entry_direct ops s ad i j)"
    using e1 l1 i j by (simp_all add: t2_def)
  have pz: "length (power_zero_nonorm s) = length t2" using l2 r by simp
  have i2: "i < length t2" using l2 i by simp
  have j2: "j < length (t2 ! i)" using e2(1) j by simp
  have l3: "length t3 = length (power_nonorm s)"
    using null_zero_length [OF pz, of ops] l2 by (simp add: t3_def)
  have e3: "length (t3 ! i) = prod_list (shape s)"
       "t3 ! i ! j = entry_zero ops s nz i j (t2 ! i ! j)"
    using null_zero_nth(1) [OF pz i2, of ops] null_zero_nth(2) [OF pz i2 j2, of ops] e2(1)
    by (simp_all add: entry_zero_def t3_def)
  have l4: "length t4 = length (power_nonorm s)" using l3 by (simp add: t4_def)
  have e4: "length (t4 ! i) = prod_list (shape s)"
       "t4 ! i ! j = (if dw then f_div ops (t3 ! i ! j) (wnorm s) else t3 ! i ! j)"
    using e3(1) l3 i j by (simp_all add: t4_def)
  have l5: "length t5 = length (power_nonorm s)" using l4 by (simp add: t5_def)
  have e5: "length (t5 ! i) = prod_list (shape s)"
       "t5 ! i ! j = (if \<not> cx \<and> iscomplexobj s then f_re ops (t4 ! i ! j) else t4 ! i ! j)"
    using e4(1) l4 i j by (simp_all add: t5_def)
  show "fst (base_get_power ops s ad rs nz dw cx) = s" by (simp add: bgp)
  show "length (snd (base_get_power ops s ad rs nz dw cx)) = length (power_nonorm s)"
    by (simp add: bgp l5)
  show "length (snd (base_get_power ops s ad rs nz dw cx) ! i) = prod_list (shape s)"
    by (simp add: bgp e5)
  show "snd (base_get_power ops s ad rs nz dw cx) ! i ! j =
      (let v = entry_direct ops s ad i j;
           v = (if rs then f_sub ops v (shotnoise_nonorm s) else v);
           v = entry_zero ops s nz i j v;
           v = (if dw then f_div ops v (wnorm s) else v)
       in if \<not> cx \<and> iscomplexobj s then f_re ops v else v)"
    by (simp add: bgp e5 e4 e3 e2 Let_def)
qed

lemma wf_poles_rows:
  assumes "wf_poles s"
  shows "wf_stat s" and "length (power_nonorm s) = length (ells s)"
  using assms by (simp_all add: wf_poles_def)

lemma index_of_nth: "x \<in> set xs \<Longrightarrow> xs ! index_of xs x = x"
  unfolding index_of_def by (induction xs) auto

lemma poles_get_power_nth:
  assumes wf: "wf_poles s" and i: "i < length (ells s)" and j: "j < prod_list (shape s)"
  shows "fst (poles_get_power ops s ad rs nz dw cx) = s"
    and "length (snd (poles_get_power ops s ad rs nz dw cx)) = length (ells s)"
    and "length (snd (poles_get_power ops s ad rs nz dw cx) ! i) = prod_list (shape s)"
    and "snd (poles_get_power ops s ad rs nz dw cx) ! i ! j =
      (let v = entry_direct ops s ad i j;
           v = entry_zero ops s nz i j v;
           v = (if rs \<and> 0 \<in> set (ells s) \<and> i = index_of (ells s) 0
                then f_sub ops v (shotnoise_nonorm s) else v);
           v = (if dw then f_div ops v (wnorm s) else v)
       in if \<not> cx \<and> iscomplexobj s
          then (if ells s ! i mod 2 = 0 then f_re ops v else f_im ops v) else v)"
proof -
  note w = wf_poles_rows [OF wf]
  have i': "i < length (power_nonorm s)" using i w(2) by simp
  note B = base_get_power_nth [OF w(1) i' j, of ops ad False nz False True]
  define T where "T = snd (base_get_power ops s ad False nz False True)"
  define u1 where "u1 = (if rs \<and> 0 \<in> set (ells s)
      then T[index_of (ells s) 0 := map (\<lambda>x. f_sub ops x (shotnoise_nonorm s)) (T ! index_of (ells s) 0)]
      else T)"
  define u2 where "u2 = (if dw then map (map (\<lambda>x. f_div ops x (wnorm s))) u1 else u1)"
  define u3 where "u3 = (if \<not> cx \<and> iscomplexobj s
      then map (\<lambda>(ill, ell). if ell mod 2 = 0 then map (f_re ops) (u2 ! ill) else map (f_im ops) (u2 ! ill))
             (enumerate 0 (ells s))
      else u2)"
  have b: "base_get_power ops s ad False nz False True = (s, T)"
    using B(1) by (simp add: T_def prod_eq_iff)
  have pgp: "poles_get_power ops s ad rs nz dw cx = (s, u3)"
    unfolding u3_def u2_def u1_def poles_get_power_def b by (simp add: Let_def)
  have lT: "length T = length (ells s)" using B(2) w(2) by (simp add: T_def)
  have eT: "length (T ! i) = prod_list (shape s)"
       "T ! i ! j = entry_zero ops s nz i j (entry_direct ops s ad i j)"
    using B(3,4) by (simp_all add: T_def Let_def)
  have l1: "length u1 = length (ells s)" using lT by (simp add: u1_def)
  have e1: "length (u1 ! i) = prod_list (shape s)"
       "u1 ! i ! j = (if rs \<and> 0 \<in> set (ells s) \<and> i = index_of (ells s) 0
                      then f_sub ops (T ! i ! j) (shotnoise_nonorm s) else T ! i ! j)"
  proof -
    show "length (u1 ! i) = prod_list (shape s)"
      using eT(1) lT i by (cases "i = index_of (ells s) 0") (simp_all add: u1_def)
    show "u1 ! i ! j = (if rs \<and> 0 \<in> set (ells s) \<and> i = index_of (ells s) 0
                      then f_sub ops (T ! i ! j) (shotnoise_nonorm s) else T ! i ! j)"
      using eT(1) lT i j by (cases "i = index_of (ells s) 0") (simp_all add: u1_def)
  qed
  have l2: "length u2 = length (ells s)" using l1 by (simp add: u2_def)
  have e2: "length (u2 ! i) = prod_list (shape s)"
       "u2 ! i ! j = (if dw then f_div ops (u1 ! i ! j) (wnorm s) else u1 ! i ! j)"
    using e1(1) l1 i j by (simp_all add: u2_def)
  have l3: "length u3 = length (ells s)" using l2 by (simp add: u3_def)
  have e3: "length (u3 ! i) = prod_list (shape s)"
       "u3 ! i ! j = (if \<not> cx \<and> iscomplexobj s
          then (if ells s ! i mod 2 = 0 then f_re ops (u2 ! i ! j) else f_im ops (u2 ! i ! j))
          else u2 ! i ! j)"
    using e2(1) l2 i j by (simp_all add: u3_def nth_enumerate_eq)
  show "fst (poles_get_power ops s ad rs nz dw cx) = s" by (simp add: pgp)
  show "length (snd (poles_get_power ops s ad rs nz dw cx)) = length (ells s)"
    by (simp add: pgp l3)
  show "length (snd (poles_get_power ops s ad rs nz dw cx) ! i) = prod_list (shape s)"
    by (simp add: pgp e3)
  show "snd (poles_get_power ops s ad rs nz dw cx) ! i ! j =
      (let v = entry_direct ops s ad i j;
           v = entry_zero ops s nz i j v;
           v = (if rs \<and> 0 \<in> set (ells s) \<and> i = index_of (ells s) 0
                then f_sub ops v (shotnoise_nonorm s) else v);
           v = (if dw then f_div ops v (wnorm s) else v)
       in if \<not> cx \<and> iscomplexobj s
          then (if ells s ! i mod 2 = 0 then f_re ops v else f_im ops v) else v)"
    by (simp only: pgp snd_conv e3(2) e2(2) e1(2) eT(2) Let_def)
qed

lemma base_fst: "fst (base_get_power ops s ad rs nz dw cx) = s"
  by (simp add: base_get_power_def Let_def)

lemma poles_fst: "fst (base_get_power ops s ad False nz False True) = s"
  by (rule base_fst)

lemma poles_row_length:
  assumes wf: "wf_poles s" and i: "i < length (ells s)"
  shows "length (snd (poles_get_power ops s ad rs nz dw cx) ! i) = prod_list (shape s)"
proof -
  note w = wf_poles_rows [OF wf]
  have i': "i < length (power_nonorm s)" using i w(2) by simp
  note r = wf_rows [OF w(1) i']
  define T where "T = snd (base_get_power ops s ad False nz False True)"
  have b: "base_get_power ops s ad False nz False True = (s, T)"
    using base_fst [of ops s ad False nz False True] by (simp add: T_def prod_eq_iff)
  define t1 where "t1 = (if ad then map2 (map2 (f_add ops)) (power_nonorm s) (power_direct_nonorm s) else power_nonorm s)"
  have T: "T = (if nz then null_zero ops s t1 else t1)"
    by (simp add: T_def base_get_power_def Let_def t1_def)
  have l1: "length t1 = length (power_nonorm s)" "length (t1 ! i) = prod_list (shape s)"
    using r i' by (simp_all add: t1_def)
  have pz: "length (power_zero_nonorm s) = length t1" using l1 r by simp
  have lT: "length T = length (ells s)" "length (T ! i) = prod_list (shape s)"
    using null_zero_length [OF pz, of ops] null_zero_nth(1) [OF pz, of i ops] l1 i' w(2)
    by (simp_all add: T)
  define u1 where "u1 = (if rs \<and> 0 \<in> set (ells s)
      then T[index_of (ells s) 0 := map (\<lambda>x. f_sub ops x (shotnoise_nonorm s)) (T ! index_of (ells s) 0)]
      else T)"
  define u2 where "u2 = (if dw then map (map (\<lambda>x. f_div ops x (wnorm s))) u1 else u1)"
  define u3 where "u3 = (if \<not> cx \<and> iscomplexobj s
      then map (\<lambda>(ill, ell). if ell mod 2 = 0 then map (f_re ops) (u2 ! ill) else map (f_im ops) (u2 ! ill))
             (enumerate 0 (ells s))
      else u2)"
  have pgp: "poles_get_power ops s ad rs nz dw cx = (s, u3)"
    unfolding u3_def u2_def u1_def poles_get_power_def b by (simp add: Let_def)
  have l1': "length u1 = length (ells s)" "length (u1 ! i) = prod_list (shape s)"
    using lT i by (cases "i = index_of (ells s) 0"; simp add: u1_def)+
  have l2: "length u2 = length (ells s)" "length (u2 ! i) = prod_list (shape s)"
    using l1' i by (simp_all add: u2_def)
  have "length (u3 ! i) = prod_list (shape s)"
    using l2 i by (simp add: u3_def nth_enumerate_eq)
  then show ?thesis by (simp add: pgp)
qed

text \<open>
  C5, as amended. \<^verbatim>\<open>get_power\<close> returns the instance unchanged, and its result is a
  function of the instance and the flags. Entry \<open>[i][j]\<close> of the base method is:
  direct power added, then shot noise subtracted, then
  \<open>power_zero_nonorm[i] / nmodes[zero bin]\<close> subtracted if \<open>j\<close> is the bin of \<open>0\<close>, then
  divided by \<open>wnorm\<close>, then the real part if \<open>complex = False\<close> and the array is complex.
  Entry \<open>[i][j]\<close> of the multipole method is: direct power added, then the zero mode
  nulled, then the shot noise subtracted on the row \<open>ells.index(0)\<close> only, then divided
  by \<open>wnorm\<close>, then, if \<open>complex = False\<close> and the array is complex, the real part for
  an even order and the imaginary part for an odd one.
\<close>

theorem get_power_composition:
  assumes "wf_stat s" and "i < length (power_nonorm s)" and "j < prod_list (shape s)"
  shows "fst (base_get_power ops s ad rs nz dw cx) = s
     \<and> snd (base_get_power ops s ad rs nz dw cx) ! i ! j =
      (let v = entry_direct ops s ad i j;
           v = (if rs then f_sub ops v (shotnoise_nonorm s) else v);
           v = entry_zero ops s nz i j v;
           v = (if dw then f_div ops v (wnorm s) else v)
       in if \<not> cx \<and> iscomplexobj s then f_re ops v else v)
     \<and> fst (poles_get_power ops s ad rs nz dw cx) = s
     \<and> (wf_poles s \<longrightarrow> snd (poles_get_power ops s ad rs nz dw cx) ! i ! j =
      (let v = entry_direct ops s ad i j;
           v = entry_zero ops s nz i j v;
           v = (if rs \<and> 0 \<in> set (ells s) \<and> i = index_of (ells s) 0
                then f_sub ops v (shotnoise_nonorm s) else v);
           v = (if dw then f_div ops v (wnorm s) else v)
       in if \<not> cx \<and> iscomplexobj s
          then (if ells s ! i mod 2 = 0 then f_re ops v else f_im ops v) else v))"
proof -
  have p: "fst (poles_get_power ops s ad rs nz dw cx) = s"
    using base_get_power_nth(1) [OF assms, of ops ad False nz False True]
    by (simp add: poles_get_power_def Let_def case_prod_beta)
  show ?thesis
    using base_get_power_nth(1,4) [OF assms, of ops ad rs nz dw cx] p
      poles_get_power_nth(4) [of s i j ops ad rs nz dw cx] assms
    by (simp add: wf_poles_def)
qed

lemma wf_s5: "wf_poles s5"
  by (simp add: wf_poles_def wf_stat_def s5_def shape_def nbins_def)

lemma zero_index_s5: "zero_index s5 = Some 0"
  by (simp add: zero_index_def s5_def shape_def nbins_def digitize_def)

theorem get_power_composition_witness:
  "wf_stat s5 \<and> (0::nat) < length (power_nonorm s5) \<and> (0::nat) < prod_list (shape s5) \<and> wf_poles s5
   \<and> snd (base_get_power xr_arith s5 True True True True True) ! 0 ! 0 = XFin 4
   \<and> snd (poles_get_power xr_arith s5 True True True True True) ! 0 ! 0 = XFin 5"
proof -
  have h: "wf_stat s5" "(0::nat) < length (power_nonorm s5)" "(0::nat) < prod_list (shape s5)"
    using wf_s5 by (simp_all add: wf_poles_def s5_def shape_def nbins_def)
  have v: "entry_direct xr_arith s5 True 0 0 = XFin 5"
    "\<And>v. entry_zero xr_arith s5 True 0 0 v = xr_sub v (XFin 0)"
    by (simp_all add: entry_direct_def entry_zero_def zero_index_s5) (simp_all add: s5_def xr_arith_def)
  from get_power_composition [OF h, of xr_arith True True True True True] h wf_s5
  show ?thesis
    by (simp add: v Let_def) (simp add: s5_def xr_arith_def xr_sub_def index_of_def)
qed

text \<open>
  C5 as stated fails for the multipole variant: with the single order \<open>2\<close> the code
  subtracts no shot noise, the stated composition subtracts it.
\<close>

theorem get_power_order_counterexample:
  "wf_poles s5
   \<and> snd (poles_get_power xr_arith s5 True True True True True) = [[XFin 5]]
   \<and> get_power_spec xr_arith True s5 True True True True True = [[XFin 4]]"
proof -
  have n: "null_zero xr_arith s5 t = map2 (\<lambda>row pz. row[0 := xr_sub (row ! 0) (xr_div pz (XFin 1))]) t [XFin 0]" for t
    by (simp add: null_zero_def zero_index_s5) (simp add: s5_def xr_arith_def)
  have 1: "snd (poles_get_power xr_arith s5 True True True True True) = [[XFin 5]]"
    by (simp add: poles_get_power_def base_get_power_def Let_def n)
       (simp add: s5_def xr_arith_def xr_sub_def)
  have 2: "get_power_spec xr_arith True s5 True True True True True = [[XFin 4]]"
    by (simp add: get_power_spec_def Let_def n)
       (simp add: s5_def xr_arith_def xr_sub_def)
  from wf_s5 1 2 show ?thesis by simp
qed

text \<open>
  C10. For a multipole instance, \<open>remove_shotnoise\<close> changes no row of an order other
  than \<open>0\<close>; when \<open>0\<close> is not among the orders it changes nothing; and on the row
  \<open>ells.index(0)\<close> it subtracts \<open>shotnoise_nonorm\<close> from the entry before the division
  by \<open>wnorm\<close>.
\<close>

theorem shotnoise_monopole_row_only:
  assumes wf: "wf_poles s"
  shows "(\<forall>i < length (ells s). ells s ! i \<noteq> 0 \<longrightarrow>
            snd (poles_get_power ops s ad True nz dw cx) ! i
            = snd (poles_get_power ops s ad False nz dw cx) ! i)
     \<and> (0 \<notin> set (ells s) \<longrightarrow>
            poles_get_power ops s ad True nz dw cx = poles_get_power ops s ad False nz dw cx)
     \<and> (0 \<in> set (ells s) \<longrightarrow> (\<forall>j < prod_list (shape s).
            snd (poles_get_power ops s ad True nz dw cx) ! index_of (ells s) 0 ! j =
              (let v = f_sub ops (entry_zero ops s nz (index_of (ells s) 0) j
                                    (entry_direct ops s ad (index_of (ells s) 0) j))
                         (shotnoise_nonorm s);
                   v = (if dw then f_div ops v (wnorm s) else v)
               in if \<not> cx \<and> iscomplexobj s then f_re ops v else v)
          \<and> snd (poles_get_power ops s ad False nz dw cx) ! index_of (ells s) 0 ! j =
              (let v = entry_zero ops s nz (index_of (ells s) 0) j
                         (entry_direct ops s ad (index_of (ells s) 0) j);
                   v = (if dw then f_div ops v (wnorm s) else v)
               in if \<not> cx \<and> iscomplexobj s then f_re ops v else v)))"
proof (intro conjI allI impI)
  fix i assume i: "i < length (ells s)" and nz0: "ells s ! i \<noteq> 0"
  have ne: "i \<noteq> index_of (ells s) 0" if "0 \<in> set (ells s)"
    using index_of_nth [OF that] nz0 by auto
  show "snd (poles_get_power ops s ad True nz dw cx) ! i
        = snd (poles_get_power ops s ad False nz dw cx) ! i"
  proof (rule nth_equalityI)
    show "length (snd (poles_get_power ops s ad True nz dw cx) ! i)
          = length (snd (poles_get_power ops s ad False nz dw cx) ! i)"
      using poles_row_length [OF wf i] by simp
  next
    fix j assume "j < length (snd (poles_get_power ops s ad True nz dw cx) ! i)"
    then have j: "j < prod_list (shape s)"
      using poles_row_length [OF wf i] by simp
    show "snd (poles_get_power ops s ad True nz dw cx) ! i ! j
          = snd (poles_get_power ops s ad False nz dw cx) ! i ! j"
      using ne by (auto simp: poles_get_power_nth(4) [OF wf i j] Let_def)
  qed
next
  assume "0 \<notin> set (ells s)"
  then show "poles_get_power ops s ad True nz dw cx = poles_get_power ops s ad False nz dw cx"
    using poles_fst [of ops s ad nz]
    by (simp add: poles_get_power_def Let_def case_prod_beta)
next
  fix j assume 0: "0 \<in> set (ells s)" and j: "j < prod_list (shape s)"
  have i: "index_of (ells s) 0 < length (ells s)" using 0 by (rule index_of_less)
  have e: "ells s ! index_of (ells s) 0 = 0" using 0 by (rule index_of_nth)
  show "snd (poles_get_power ops s ad True nz dw cx) ! index_of (ells s) 0 ! j =
              (let v = f_sub ops (entry_zero ops s nz (index_of (ells s) 0) j
                                    (entry_direct ops s ad (index_of (ells s) 0) j))
                         (shotnoise_nonorm s);
                   v = (if dw then f_div ops v (wnorm s) else v)
               in if \<not> cx \<and> iscomplexobj s then f_re ops v else v)"
    using 0 e by (simp add: poles_get_power_nth(4) [OF wf i j] Let_def)
  show "snd (poles_get_power ops s ad False nz dw cx) ! index_of (ells s) 0 ! j =
              (let v = entry_zero ops s nz (index_of (ells s) 0) j
                         (entry_direct ops s ad (index_of (ells s) 0) j);
                   v = (if dw then f_div ops v (wnorm s) else v)
               in if \<not> cx \<and> iscomplexobj s then f_re ops v else v)"
    using 0 e by (simp add: poles_get_power_nth(4) [OF wf i j] Let_def)
qed

lemma wf_s10: "wf_poles s10"
  by (simp add: wf_poles_def wf_stat_def s10_def shape_def nbins_def)

lemma zero_index_s10: "zero_index s10 = Some 0"
  by (simp add: zero_index_def s10_def shape_def nbins_def digitize_def)

lemma null_zero_s10:
  "null_zero xr_arith s10 t =
     map2 (\<lambda>row pz. row[0 := xr_sub (row ! 0) (xr_div pz (XFin 1))]) t [XFin 0, XFin 0]"
  by (simp add: null_zero_def zero_index_s10) (simp add: s10_def xr_arith_def)

theorem shotnoise_monopole_row_only_witness:
  "wf_poles s10
   \<and> snd (poles_get_power xr_arith s10 True True True True True) ! 1 = [XFin 7]
   \<and> snd (poles_get_power xr_arith s10 True False True True True) = [[XFin 5], [XFin 7]]
   \<and> snd (poles_get_power xr_arith s10 True True True True True) ! 0 = [XFin 4]"
proof -
  have f: "snd (poles_get_power xr_arith s10 True False True True True) = [[XFin 5], [XFin 7]]"
    by (simp add: poles_get_power_def base_get_power_def Let_def null_zero_s10)
       (simp add: s10_def xr_arith_def xr_sub_def)
  have t: "snd (poles_get_power xr_arith s10 True True True True True) ! 0 = [XFin 4]"
    by (simp add: poles_get_power_def base_get_power_def Let_def null_zero_s10)
       (simp add: s10_def xr_arith_def xr_sub_def index_of_def)
  have "(1::nat) < length (ells s10)" "ells s10 ! 1 \<noteq> 0" by (simp_all add: s10_def)
  with shotnoise_monopole_row_only [OF wf_s10, of xr_arith True True True True]
  have "snd (poles_get_power xr_arith s10 True True True True True) ! 1
        = snd (poles_get_power xr_arith s10 True False True True True) ! 1" by blast
  with f t wf_s10 show ?thesis by simp
qed

section \<open>\<^verbatim>\<open>rebin\<close>\<close>

lemma any_rest_False:
  "any_rest ps = Inr False \<Longrightarrow> (s, f) \<in> set ps \<Longrightarrow> f \<noteq> 0 \<and> s mod f = 0"
  by (induction ps) (auto split: if_splits)

lemma rebin_Inr:
  assumes "rebin ops s factor = Inr s'"
  shows "length (full_factor s factor) \<le> length (edges s)"
    and "any_rest (zip (shape s) (full_factor s factor)) = Inr False"
    and "s' = s\<lparr>nmodes := utils_rebin_nat (shape s) (new_shape_of s factor) (nmodes s),
               modes := map (reaverage ops (shape s) (new_shape_of s factor) (nmodes s)
                               (utils_rebin_nat (shape s) (new_shape_of s factor) (nmodes s))) (modes s),
               power_nonorm := map (reaverage ops (shape s) (new_shape_of s factor) (nmodes s)
                               (utils_rebin_nat (shape s) (new_shape_of s factor) (nmodes s))) (power_nonorm s),
               power_direct_nonorm := map (reaverage ops (shape s) (new_shape_of s factor) (nmodes s)
                               (utils_rebin_nat (shape s) (new_shape_of s factor) (nmodes s))) (power_direct_nonorm s),
               edges := map2 (\<lambda>e f. every f e) (edges s) (full_factor s factor)\<rparr>"
  using assms
  by (auto simp: rebin_def Let_def shape_def split: if_splits sum.splits bool.splits)

lemma group_less: "k \<in> set (group_of shp new J) \<Longrightarrow> k < prod_list shp"
  by (simp add: group_of_def)

lemma utils_rebin_nat_nth:
  "J < prod_list new \<Longrightarrow> utils_rebin_nat shp new arr ! J = sum_list (map (\<lambda>k. arr ! k) (group_of shp new J))"
  by (simp add: utils_rebin_nat_def)

lemma length_utils_rebin_nat: "length (utils_rebin_nat shp new arr) = prod_list new"
  by (simp add: utils_rebin_nat_def)

lemma reaverage_nth:
  assumes "J < prod_list new" and "length nm' = prod_list new"
    and "length arr = prod_list shp" and "length nm = prod_list shp"
  shows "reaverage ops shp new nm nm' arr ! J =
     f_div ops (f_sum ops (map (\<lambda>k. f_mul ops (if f_isnan ops (arr ! k) then f_zero ops else arr ! k)
                                       (f_of_nat ops (nm ! k))) (group_of shp new J)))
       (f_of_nat ops (nm' ! J))"
proof -
  have *: "map ((!) (map2 (\<lambda>v n. f_mul ops v (f_of_nat ops n)) (nan_to_zero ops arr) nm)) (group_of shp new J)
      = map (\<lambda>k. f_mul ops (if f_isnan ops (arr ! k) then f_zero ops else arr ! k)
                                       (f_of_nat ops (nm ! k))) (group_of shp new J)"
    using assms(3,4) by (intro map_cong) (auto simp: nan_to_zero_def dest: group_less)
  show ?thesis
    using assms(1,2) by (simp add: reaverage_def utils_rebin_def *)
qed

lemma length_reaverage:
  "length nm' = prod_list new \<Longrightarrow> length (reaverage ops shp new nm nm' arr) = prod_list new"
  by (simp add: reaverage_def utils_rebin_def)

lemma length_every: "0 < f \<Longrightarrow> length (every f xs) = (length xs + f - 1) div f"
  by (simp add: every_def)

lemma nbins_every:
  assumes "0 < f" and "xs \<noteq> []" and "nbins xs mod f = 0"
  shows "nbins (every f xs) = nbins xs div f"
proof -
  have "f dvd nbins xs" using assms(3) by (simp add: mod_eq_0_iff_dvd)
  then obtain q where "nbins xs = f * q" unfolding dvd_def by blast
  then have q: "nbins xs = q * f" by (simp add: mult.commute)
  have L: "length xs = q * f + 1" using q assms(2) by (cases xs) (simp_all add: nbins_def)
  have "(length xs + f - 1) div f = (q * f + f) div f" using L by simp
  also have "\<dots> = q + 1" using assms(1) by simp
  finally show ?thesis using assms(1) q by (simp add: nbins_def length_every)
qed

lemma shape_rebin:
  assumes wf: "wf_stat s" and ok: "rebin ops s factor = Inr s'"
    and full: "length (full_factor s factor) = length (edges s)"
  shows "shape s' = new_shape_of s factor"
proof -
  note R = rebin_Inr [OF ok]
  have e: "edges s' = map2 (\<lambda>e f. every f e) (edges s) (full_factor s factor)"
    by (subst R(3)) simp
  have ne: "\<forall>e \<in> set (edges s). e \<noteq> []" using wf by (simp add: wf_stat_def list_all_iff)
  show ?thesis
    unfolding shape_def e new_shape_of_def
  proof (rule nth_equalityI)
    show "length (map nbins (map2 (\<lambda>e f. every f e) (edges s) (full_factor s factor)))
          = length (map2 (\<lambda>s f. s div f) (map nbins (edges s)) (full_factor s factor))"
      by simp
  next
    fix a assume "a < length (map nbins (map2 (\<lambda>e f. every f e) (edges s) (full_factor s factor)))"
    then have a: "a < length (edges s)" "a < length (full_factor s factor)" by simp_all
    have "(nbins (edges s ! a), full_factor s factor ! a) \<in> set (zip (shape s) (full_factor s factor))"
      using a by (auto simp: shape_def in_set_zip intro!: exI [of _ a])
    from any_rest_False [OF R(2) this]
    have f: "0 < full_factor s factor ! a" "nbins (edges s ! a) mod full_factor s factor ! a = 0"
      by simp_all
    have "edges s ! a \<noteq> []" using ne a(1) by simp
    from nbins_every [OF f(1) this f(2)] a
    show "map nbins (map2 (\<lambda>e f. every f e) (edges s) (full_factor s factor)) ! a
          = map2 (\<lambda>s f. s div f) (map nbins (edges s)) (full_factor s factor) ! a"
      by simp
  qed
qed

lemma rebin_weighted_mean_Inr:
  assumes wf: "wf_stat s" and ok: "rebin ops s factor = Inr s'"
    and J: "J < prod_list (new_shape_of s factor)"
  shows "nmodes s' ! J = sum_list (map (\<lambda>k. nmodes s ! k) (group_of (shape s) (new_shape_of s factor) J))
     \<and> (\<forall>a < length (modes s). modes s' ! a ! J =
          f_div ops
            (f_sum ops (map (\<lambda>k. f_mul ops (if f_isnan ops (modes s ! a ! k) then f_zero ops
                                              else modes s ! a ! k)
                                   (f_of_nat ops (nmodes s ! k)))
                          (group_of (shape s) (new_shape_of s factor) J)))
            (f_of_nat ops (nmodes s' ! J)))
     \<and> (\<forall>r < length (power_nonorm s). power_nonorm s' ! r ! J =
          f_div ops
            (f_sum ops (map (\<lambda>k. f_mul ops (if f_isnan ops (power_nonorm s ! r ! k) then f_zero ops
                                              else power_nonorm s ! r ! k)
                                   (f_of_nat ops (nmodes s ! k)))
                          (group_of (shape s) (new_shape_of s factor) J)))
            (f_of_nat ops (nmodes s' ! J)))
     \<and> (\<forall>r < length (power_direct_nonorm s). power_direct_nonorm s' ! r ! J =
          f_div ops
            (f_sum ops (map (\<lambda>k. f_mul ops (if f_isnan ops (power_direct_nonorm s ! r ! k) then f_zero ops
                                              else power_direct_nonorm s ! r ! k)
                                   (f_of_nat ops (nmodes s ! k)))
                          (group_of (shape s) (new_shape_of s factor) J)))
            (f_of_nat ops (nmodes s' ! J)))
     \<and> edges s' = map2 (\<lambda>e f. every f e) (edges s) (full_factor s factor)
     \<and> (length (full_factor s factor) = length (edges s) \<longrightarrow> shape s' = new_shape_of s factor)"
proof -
  note R = rebin_Inr [OF ok]
  let ?new = "new_shape_of s factor"
  let ?N = "utils_rebin_nat (shape s) ?new (nmodes s)"
  have n': "nmodes s' = ?N" by (subst R(3)) simp
  have m': "modes s' = map (reaverage ops (shape s) ?new (nmodes s) ?N) (modes s)"
    by (subst R(3)) simp
  have p': "power_nonorm s' = map (reaverage ops (shape s) ?new (nmodes s) ?N) (power_nonorm s)"
    by (subst R(3)) simp
  have d': "power_direct_nonorm s' = map (reaverage ops (shape s) ?new (nmodes s) ?N) (power_direct_nonorm s)"
    by (subst R(3)) simp
  have e': "edges s' = map2 (\<lambda>e f. every f e) (edges s) (full_factor s factor)"
    by (subst R(3)) simp
  have lN: "length ?N = prod_list ?new" by (rule length_utils_rebin_nat)
  have ln: "length (nmodes s) = prod_list (shape s)" using wf by (simp add: wf_stat_def)
  have lm: "length (modes s ! a) = prod_list (shape s)" if "a < length (modes s)" for a
    using wf that by (simp add: wf_stat_def list_all_length)
  have lp: "length (power_nonorm s ! r) = prod_list (shape s)" if "r < length (power_nonorm s)" for r
    using wf that by (simp add: wf_stat_def list_all_length)
  have ld: "length (power_direct_nonorm s ! r) = prod_list (shape s)"
    if "r < length (power_direct_nonorm s)" for r
    using wf that by (simp add: wf_stat_def list_all_length)
  show ?thesis
    using J shape_rebin [OF wf ok]
    by (simp add: n' m' p' d' e' utils_rebin_nat_nth reaverage_nth [OF J lN _ ln] lm lp ld)
qed

lemma rebin_ok:
  assumes "length (full_factor s factor) \<le> length (edges s)"
    and "any_rest (zip (shape s) (full_factor s factor)) = Inr False"
  shows "\<exists>s'. rebin ops s factor = Inr s'"
  using assms by (simp add: rebin_def Let_def)

lemma rebin_explicit:
  assumes "length (full_factor s factor) \<le> length (edges s)"
    and "any_rest (zip (shape s) (full_factor s factor)) = Inr False"
  shows "rebin ops s factor =
    Inr (s\<lparr>nmodes := utils_rebin_nat (shape s) (new_shape_of s factor) (nmodes s),
               modes := map (reaverage ops (shape s) (new_shape_of s factor) (nmodes s)
                               (utils_rebin_nat (shape s) (new_shape_of s factor) (nmodes s))) (modes s),
               power_nonorm := map (reaverage ops (shape s) (new_shape_of s factor) (nmodes s)
                               (utils_rebin_nat (shape s) (new_shape_of s factor) (nmodes s))) (power_nonorm s),
               power_direct_nonorm := map (reaverage ops (shape s) (new_shape_of s factor) (nmodes s)
                               (utils_rebin_nat (shape s) (new_shape_of s factor) (nmodes s))) (power_direct_nonorm s),
               edges := map2 (\<lambda>e f. every f e) (edges s) (full_factor s factor)\<rparr>)"
  using assms by (simp add: rebin_def Let_def shape_def)

lemma any_rest_divides:
  "\<forall>(s, f) \<in> set ps. f \<noteq> 0 \<and> s mod f = 0 \<Longrightarrow> any_rest ps = Inr False"
  by (induction ps) auto

lemma rebin_returns:
  assumes len: "length factor \<le> length (edges s)"
    and dv: "\<forall>i < length (edges s). 0 < full_factor s factor ! i
                \<and> shape s ! i mod full_factor s factor ! i = 0"
  shows "\<exists>s'. rebin ops s factor = Inr s'" and "length (full_factor s factor) = length (edges s)"
proof -
  show l: "length (full_factor s factor) = length (edges s)"
    using len by (simp add: full_factor_def)
  have "\<forall>(a, f) \<in> set (zip (shape s) (full_factor s factor)). f \<noteq> 0 \<and> a mod f = 0"
    using dv l by (auto simp: in_set_zip shape_def)
  then have "any_rest (zip (shape s) (full_factor s factor)) = Inr False"
    by (rule any_rest_divides)
  with l show "\<exists>s'. rebin ops s factor = Inr s'"
    by (intro rebin_ok) simp_all
qed

text \<open>
  C6, as amended. When every factor divides the bin count of its axis, \<^verbatim>\<open>rebin\<close>
  returns, the count of a new bin is the sum of the old counts of its group, and each
  averaged array (\<open>modes\<close>, \<open>power_nonorm\<close>, \<open>power_direct_nonorm\<close>) holds in a new bin
  the sum over the group of the old values, each multiplied by its old count, divided
  by the new count; a NaN (the average of an empty bin, or of a bin beyond the Nyquist
  frequency) enters the sum as \<open>0\<close>, whatever its count. The edges keep every
  \<open>f\<close>-th entry, so the new shape is the old one divided by the factor.
\<close>

theorem rebin_weighted_mean:
  assumes wf: "wf_stat s" and len: "length factor \<le> length (edges s)"
    and dv: "\<forall>i < length (edges s). 0 < full_factor s factor ! i
                \<and> shape s ! i mod full_factor s factor ! i = 0"
    and J: "J < prod_list (new_shape_of s factor)"
  shows "\<exists>s'. rebin ops s factor = Inr s'
     \<and> nmodes s' ! J =
          sum_list (map (\<lambda>k. nmodes s ! k) (group_of (shape s) (new_shape_of s factor) J))
     \<and> (\<forall>a < length (modes s). modes s' ! a ! J =
          f_div ops
            (f_sum ops (map (\<lambda>k. f_mul ops (if f_isnan ops (modes s ! a ! k) then f_zero ops
                                              else modes s ! a ! k)
                                   (f_of_nat ops (nmodes s ! k)))
                          (group_of (shape s) (new_shape_of s factor) J)))
            (f_of_nat ops (nmodes s' ! J)))
     \<and> (\<forall>r < length (power_nonorm s). power_nonorm s' ! r ! J =
          f_div ops
            (f_sum ops (map (\<lambda>k. f_mul ops (if f_isnan ops (power_nonorm s ! r ! k) then f_zero ops
                                              else power_nonorm s ! r ! k)
                                   (f_of_nat ops (nmodes s ! k)))
                          (group_of (shape s) (new_shape_of s factor) J)))
            (f_of_nat ops (nmodes s' ! J)))
     \<and> (\<forall>r < length (power_direct_nonorm s). power_direct_nonorm s' ! r ! J =
          f_div ops
            (f_sum ops (map (\<lambda>k. f_mul ops (if f_isnan ops (power_direct_nonorm s ! r ! k) then f_zero ops
                                              else power_direct_nonorm s ! r ! k)
                                   (f_of_nat ops (nmodes s ! k)))
                          (group_of (shape s) (new_shape_of s factor) J)))
            (f_of_nat ops (nmodes s' ! J)))
     \<and> edges s' = map2 (\<lambda>e f. every f e) (edges s) (full_factor s factor)
     \<and> shape s' = new_shape_of s factor"
proof -
  from rebin_returns(1) [OF len dv, of ops] obtain s' where ok: "rebin ops s factor = Inr s'"
    by blast
  note l = rebin_returns(2) [OF len dv]
  from rebin_weighted_mean_Inr [OF wf ok J] l ok show ?thesis by blast
qed

lemma shape_s6: "shape s6 = [4]" "new_shape_of s6 [2] = [2]" "full_factor s6 [2] = [2]"
  by (simp_all add: shape_def new_shape_of_def full_factor_def s6_def nbins_def)

lemma group_s6: "group_of [4] [2] 0 = [0, 1]" "group_of [4] [2] (Suc 0) = [2, 3]"
  by (simp_all add: group_of_def coarse_def upt_rec)

lemma wf_s6: "wf_stat s6"
  by (simp add: wf_stat_def shape_s6) (simp add: s6_def)

theorem rebin_weighted_mean_witness:
  "wf_stat s6 \<and> length [2 :: nat] \<le> length (edges s6) \<and> shape s6 = [4]
   \<and> full_factor s6 [2] = [2] \<and> (1::nat) < prod_list (new_shape_of s6 [2])
   \<and> (\<exists>s'. rebin xr_arith s6 [2] = Inr s'
        \<and> nmodes s' ! 1 = 2 \<and> power_nonorm s' ! 0 ! 1 = XFin 6 \<and> modes s' ! 0 ! 1 = XFin 4
        \<and> shape s' = [2])"
proof -
  have len: "length [2 :: nat] \<le> length (edges s6)" by (simp add: s6_def)
  have e: "length (edges s6) = 1" by (simp add: s6_def)
  have dv: "\<forall>i < length (edges s6). 0 < full_factor s6 [2] ! i
              \<and> shape s6 ! i mod full_factor s6 [2] ! i = 0"
    by (simp add: e shape_s6)
  have J: "(1::nat) < prod_list (new_shape_of s6 [2])" by (simp add: shape_s6)
  have l: "(0::nat) < length (modes s6)" "(0::nat) < length (power_nonorm s6)"
    by (simp_all add: s6_def)
  from rebin_weighted_mean [OF wf_s6 len dv J, of xr_arith]
  obtain s' where s': "rebin xr_arith s6 [2] = Inr s' \<and> nmodes s' ! 1 = sum_list (map (\<lambda>k. nmodes s6 ! k) (group_of (shape s6) (new_shape_of s6 [2]) 1))
     \<and> (\<forall>a < length (modes s6). modes s' ! a ! 1 =
          f_div xr_arith
            (f_sum xr_arith (map (\<lambda>k. f_mul xr_arith (if f_isnan xr_arith (modes s6 ! a ! k) then f_zero xr_arith
                                              else modes s6 ! a ! k)
                                   (f_of_nat xr_arith (nmodes s6 ! k)))
                          (group_of (shape s6) (new_shape_of s6 [2]) 1)))
            (f_of_nat xr_arith (nmodes s' ! 1)))
     \<and> (\<forall>r < length (power_nonorm s6). power_nonorm s' ! r ! 1 =
          f_div xr_arith
            (f_sum xr_arith (map (\<lambda>k. f_mul xr_arith (if f_isnan xr_arith (power_nonorm s6 ! r ! k) then f_zero xr_arith
                                              else power_nonorm s6 ! r ! k)
                                   (f_of_nat xr_arith (nmodes s6 ! k)))
                          (group_of (shape s6) (new_shape_of s6 [2]) 1)))
            (f_of_nat xr_arith (nmodes s' ! 1)))
     \<and> (\<forall>r < length (power_direct_nonorm s6). power_direct_nonorm s' ! r ! 1 =
          f_div xr_arith
            (f_sum xr_arith (map (\<lambda>k. f_mul xr_arith (if f_isnan xr_arith (power_direct_nonorm s6 ! r ! k) then f_zero xr_arith
                                              else power_direct_nonorm s6 ! r ! k)
                                   (f_of_nat xr_arith (nmodes s6 ! k)))
                          (group_of (shape s6) (new_shape_of s6 [2]) 1)))
            (f_of_nat xr_arith (nmodes s' ! 1)))
     \<and> edges s' = map2 (\<lambda>e f. every f e) (edges s6) (full_factor s6 [2])
     \<and> shape s' = new_shape_of s6 [2]"
    by blast
  from s' l
  have "nmodes s' ! 1 = 2 \<and> power_nonorm s' ! 0 ! 1 = XFin 6 \<and> modes s' ! 0 ! 1 = XFin 4
        \<and> shape s' = [2]"
    by (simp add: shape_s6 group_s6 f_sum_def) (simp add: s6_def xr_arith_def)
  moreover from s' have "rebin xr_arith s6 [2] = Inr s'" by simp
  ultimately show ?thesis using wf_s6 len J by (auto simp: shape_s6)
qed

lemma shape_s6n: "shape s6n = [2]" "new_shape_of s6n [2] = [1]" "full_factor s6n [2] = [2]"
  by (simp_all add: shape_def new_shape_of_def full_factor_def s6n_def nbins_def)

lemma group_s6n: "group_of [2] [1] 0 = [0, 1]" "group_of [2] [Suc 0] 0 = [0, 1]"
  by (simp_all add: group_of_def coarse_def upt_rec)

text \<open>
  C6 as stated fails: \<^verbatim>\<open>rebin\<close> replaces a NaN by \<open>0\<close> before it weights
  (\<^verbatim>\<open>_nan_to_zero\<close>). Two bins of one mode each with the powers NaN and \<open>6\<close> are merged
  into a bin of power \<open>(0 * 1 + 6 * 1) / 2 = 3\<close>, while the sum of the old values
  weighted by their counts, divided by the new count, is NaN.
\<close>

theorem rebin_nan_as_zero_counterexample:
  "wf_stat s6n
   \<and> rebin xr_arith s6n [2] =
     Inr (s6n\<lparr>nmodes := [2], modes := [[XFin (3 / 2)]], power_nonorm := [[XFin 3]],
              power_direct_nonorm := [[XFin 0]], edges := [[0, 2]]\<rparr>)
   \<and> group_of (shape s6n) (new_shape_of s6n [2]) 0 = [0, 1]
   \<and> weighted_mean_spec xr_arith (power_nonorm s6n ! 0) (nmodes s6n) [0, 1] = XNaN"
proof -
  have n: "utils_rebin_nat [2] [1] [1, 1] = [2]"
    by (simp add: utils_rebin_nat_def group_s6n)
  have r: "reaverage xr_arith [2] [Suc 0] [Suc 0, Suc 0] [2] [XFin 1, XFin 2] = [XFin (3 / 2)]"
    "reaverage xr_arith [2] [Suc 0] [Suc 0, Suc 0] [2] [XNaN, XFin 6] = [XFin 3]"
    "reaverage xr_arith [2] [Suc 0] [Suc 0, Suc 0] [2] [XFin 0, XFin 0] = [XFin 0]"
    by (simp_all add: reaverage_def utils_rebin_def nan_to_zero_def group_s6n f_sum_def xr_arith_def)
  have e: "every 2 [0, 1, 2 :: real] = [0, 2]"
    by (simp add: every_def upt_rec)
  have v: "nmodes s6n = [1, 1]" "modes s6n = [[XFin 1, XFin 2]]" "power_nonorm s6n = [[XNaN, XFin 6]]"
    "power_direct_nonorm s6n = [[XFin 0, XFin 0]]" "edges s6n = [[0, 1, 2]]"
    by (simp_all add: s6n_def)
  have l: "length (full_factor s6n [2]) \<le> length (edges s6n)"
    by (simp add: shape_s6n v)
  have a: "any_rest (zip (shape s6n) (full_factor s6n [2])) = Inr False"
    by (simp add: shape_s6n)
  have "rebin xr_arith s6n [2] =
     Inr (s6n\<lparr>nmodes := [2], modes := [[XFin (3 / 2)]], power_nonorm := [[XFin 3]],
              power_direct_nonorm := [[XFin 0]], edges := [[0, 2]]\<rparr>)"
    unfolding rebin_explicit [OF l a] shape_s6n v n
    by (simp add: r e)
  moreover have "weighted_mean_spec xr_arith (power_nonorm s6n ! 0) (nmodes s6n) [0, 1] = XNaN"
    by (simp add: weighted_mean_spec_def v f_sum_def xr_arith_def)
  moreover have "wf_stat s6n"
    by (simp add: wf_stat_def shape_s6n) (simp add: s6n_def)
  ultimately show ?thesis by (simp add: shape_s6n group_s6n)
qed

lemma ravel_unravel:
  "k < prod_list shp \<Longrightarrow> ravel_nd shp (unravel shp k) = k"
proof (induction shp arbitrary: k)
  case Nil
  then show ?case by simp
next
  case (Cons n ns)
  then have P: "0 < prod_list ns" by (cases "prod_list ns = 0") simp_all
  then have "k mod prod_list ns < prod_list ns" by simp
  from Cons.IH [OF this] show ?case by simp
qed

lemma coarse_same: "k < prod_list shp \<Longrightarrow> coarse shp shp k = k"
proof (induction shp arbitrary: k)
  case Nil
  then show ?case by (simp add: coarse_def)
next
  case (Cons n ns)
  then have P: "0 < prod_list ns" and n: "0 < n"
    by (cases "prod_list ns = 0"; cases "n = 0"; simp)+
  then have "k mod prod_list ns < prod_list ns" by simp
  from Cons.IH [OF this] n show ?case by (simp add: coarse_def)
qed

lemma filter_eq_upt: "J < n \<Longrightarrow> filter (\<lambda>k. k = J) [0..<n] = [J]"
  by (induction n) auto

lemma group_same: "J < prod_list shp \<Longrightarrow> group_of shp shp J = [J]"
proof -
  assume J: "J < prod_list shp"
  have "filter (\<lambda>k. coarse shp shp k = J) [0..<prod_list shp] = filter (\<lambda>k. k = J) [0..<prod_list shp]"
    by (intro filter_cong) (simp_all add: coarse_same)
  also have "\<dots> = [J]" using J by (rule filter_eq_upt)
  finally show ?thesis by (simp add: group_of_def)
qed

lemma any_rest_ones: "any_rest (zip shp (replicate n (Suc 0))) = Inr False"
proof (induction shp arbitrary: n)
  case Nil
  then show ?case by simp
next
  case (Cons a shp)
  then show ?case by (cases n) simp_all
qed

lemma div_ones: "map2 (\<lambda>s f. s div f) shp (replicate (length shp) (Suc 0)) = shp"
  by (induction shp) simp_all

lemma every_one: "every (Suc 0) xs = xs"
  by (simp add: every_def map_nth)

lemma every_ones: "map2 (\<lambda>e f. every f e) es (replicate (length es) (Suc 0)) = es"
  by (induction es) (simp_all add: every_one)

lemma full_factor_ones:
  "m \<le> length (edges s) \<Longrightarrow> full_factor s (replicate m (Suc 0)) = replicate (length (edges s)) (Suc 0)"
  by (simp add: full_factor_def replicate_add [symmetric])

lemma new_shape_ones: "m \<le> length (edges s) \<Longrightarrow> new_shape_of s (replicate m (Suc 0)) = shape s"
  using div_ones [of "shape s"] by (simp add: new_shape_of_def full_factor_ones shape_def)

lemma utils_rebin_nat_same:
  assumes "length arr = prod_list shp"
  shows "utils_rebin_nat shp shp arr = arr"
proof (rule nth_equalityI)
  show "length (utils_rebin_nat shp shp arr) = length arr"
    using assms by (simp add: utils_rebin_nat_def)
next
  fix J assume "J < length (utils_rebin_nat shp shp arr)"
  then have "J < prod_list shp" by (simp add: utils_rebin_nat_def)
  then show "utils_rebin_nat shp shp arr ! J = arr ! J"
    by (simp add: utils_rebin_nat_nth group_same)
qed

lemma reaverage_same:
  assumes "length arr = prod_list shp" and "length nm = prod_list shp"
  shows "reaverage ops shp shp nm nm arr =
         map2 (\<lambda>v n. f_div ops (f_mul ops (if f_isnan ops v then f_zero ops else v) (f_of_nat ops n))
                       (f_of_nat ops n)) arr nm"
proof (rule nth_equalityI)
  show "length (reaverage ops shp shp nm nm arr) =
        length (map2 (\<lambda>v n. f_div ops (f_mul ops (if f_isnan ops v then f_zero ops else v) (f_of_nat ops n))
                       (f_of_nat ops n)) arr nm)"
    using assms by (simp add: length_reaverage)
next
  fix J assume "J < length (reaverage ops shp shp nm nm arr)"
  then have J: "J < prod_list shp" using assms by (simp add: length_reaverage)
  show "reaverage ops shp shp nm nm arr ! J =
        map2 (\<lambda>v n. f_div ops (f_mul ops (if f_isnan ops v then f_zero ops else v) (f_of_nat ops n))
                       (f_of_nat ops n)) arr nm ! J"
    using J assms by (simp add: reaverage_nth [OF J assms(2) assms] group_same f_sum_def)
qed

lemma rebin_ones:
  assumes wf: "wf_stat s" and m: "m \<le> length (edges s)"
  shows "rebin ops s (replicate m 1) =
     Inr (s\<lparr>modes := map (\<lambda>arr. map2 (\<lambda>v n. f_div ops (f_mul ops (if f_isnan ops v then f_zero ops else v)
                                                (f_of_nat ops n)) (f_of_nat ops n)) arr (nmodes s)) (modes s),
            power_nonorm := map (\<lambda>arr. map2 (\<lambda>v n. f_div ops (f_mul ops (if f_isnan ops v then f_zero ops else v)
                                                (f_of_nat ops n)) (f_of_nat ops n)) arr (nmodes s)) (power_nonorm s),
            power_direct_nonorm := map (\<lambda>arr. map2 (\<lambda>v n. f_div ops (f_mul ops (if f_isnan ops v then f_zero ops else v)
                                                (f_of_nat ops n)) (f_of_nat ops n)) arr (nmodes s))
                                      (power_direct_nonorm s)\<rparr>)"
proof -
  have ln: "length (nmodes s) = prod_list (shape s)" using wf by (simp add: wf_stat_def)
  have lm: "\<forall>arr \<in> set (modes s). length arr = prod_list (shape s)"
    and lp: "\<forall>arr \<in> set (power_nonorm s). length arr = prod_list (shape s)"
    and ld: "\<forall>arr \<in> set (power_direct_nonorm s). length arr = prod_list (shape s)"
    using wf by (simp_all add: wf_stat_def list_all_iff)
  have sh: "shape (s\<lparr>nmodes := x\<rparr>) = shape s" for x by (simp add: shape_def)
  have N: "utils_rebin_nat (shape s) (shape s) (nmodes s) = nmodes s"
    using ln by (rule utils_rebin_nat_same)
  have M: "map (reaverage ops (shape s) (shape s) (nmodes s) (nmodes s)) xs =
        map (\<lambda>arr. map2 (\<lambda>v n. f_div ops (f_mul ops (if f_isnan ops v then f_zero ops else v)
                                                (f_of_nat ops n)) (f_of_nat ops n)) arr (nmodes s)) xs"
    if "\<forall>arr \<in> set xs. length arr = prod_list (shape s)" for xs
    using that ln by (intro map_cong) (simp_all add: reaverage_same)
  have 1: "length (full_factor s (replicate m (Suc 0))) \<le> length (edges s)"
    using m by (simp add: full_factor_ones)
  have 2: "any_rest (zip (shape s) (full_factor s (replicate m (Suc 0)))) = Inr False"
    using m by (simp add: full_factor_ones any_rest_ones)
  have "rebin ops s (replicate m (Suc 0)) = Inr (s\<lparr>modes := map (\<lambda>arr. map2 (\<lambda>v n. f_div ops (f_mul ops (if f_isnan ops v then f_zero ops else v)
                                                (f_of_nat ops n)) (f_of_nat ops n)) arr (nmodes s)) (modes s),
            power_nonorm := map (\<lambda>arr. map2 (\<lambda>v n. f_div ops (f_mul ops (if f_isnan ops v then f_zero ops else v)
                                                (f_of_nat ops n)) (f_of_nat ops n)) arr (nmodes s)) (power_nonorm s),
            power_direct_nonorm := map (\<lambda>arr. map2 (\<lambda>v n. f_div ops (f_mul ops (if f_isnan ops v then f_zero ops else v)
                                                (f_of_nat ops n)) (f_of_nat ops n)) arr (nmodes s))
                                      (power_direct_nonorm s)\<rparr>)"
    using m every_ones [of "edges s"]
    by (simp add: rebin_explicit [OF 1 2] full_factor_ones new_shape_ones N
        M [OF lm] M [OF lp] M [OF ld])
  then show ?thesis by simp
qed

text \<open>
  C7, as amended. \<^verbatim>\<open>rebin(1)\<close> returns, leaves the edges and the counts as they are,
  and replaces every entry \<open>v\<close> of an averaged array, in a bin with count \<open>n\<close>, by
  \<open>(nan_to_zero v * n) / n\<close>.
\<close>

theorem rebin_one_effect:
  assumes wf: "wf_stat s" and m: "m \<le> length (edges s)"
  shows "\<exists>s'. rebin ops s (replicate m 1) = Inr s'
     \<and> edges s' = edges s \<and> nmodes s' = nmodes s
     \<and> modes s' = map (\<lambda>arr. map2 (\<lambda>v n. f_div ops (f_mul ops (if f_isnan ops v then f_zero ops else v)
                                  (f_of_nat ops n)) (f_of_nat ops n)) arr (nmodes s)) (modes s)
     \<and> power_nonorm s' = map (\<lambda>arr. map2 (\<lambda>v n. f_div ops (f_mul ops (if f_isnan ops v then f_zero ops else v)
                                  (f_of_nat ops n)) (f_of_nat ops n)) arr (nmodes s)) (power_nonorm s)
     \<and> power_direct_nonorm s' =
         map (\<lambda>arr. map2 (\<lambda>v n. f_div ops (f_mul ops (if f_isnan ops v then f_zero ops else v)
                                  (f_of_nat ops n)) (f_of_nat ops n)) arr (nmodes s)) (power_direct_nonorm s)"
  unfolding rebin_ones [OF wf m] by simp

lemma wf_s7: "wf_stat s7"
  by (simp add: wf_stat_def shape_def nbins_def s7_def)

theorem rebin_one_effect_witness:
  "wf_stat s6 \<and> (1::nat) \<le> length (edges s6)
   \<and> (\<exists>s'. rebin xr_arith s6 (replicate 1 1) = Inr s' \<and> edges s' = edges s6 \<and> nmodes s' = nmodes s6
        \<and> power_nonorm s' = power_nonorm s6
        \<and> power_direct_nonorm s' = [[XFin 0, XFin 0, XNaN, XFin 0]])"
proof -
  have m: "(1::nat) \<le> length (edges s6)" by (simp add: s6_def)
  from rebin_one_effect [OF wf_s6 m, of xr_arith]
  obtain s' where s': "rebin xr_arith s6 (replicate 1 1) = Inr s'" "edges s' = edges s6"
    "nmodes s' = nmodes s6"
    "power_nonorm s' = map (\<lambda>arr. map2 (\<lambda>v n. f_div xr_arith (f_mul xr_arith
         (if f_isnan xr_arith v then f_zero xr_arith else v)
         (f_of_nat xr_arith n)) (f_of_nat xr_arith n)) arr (nmodes s6)) (power_nonorm s6)"
    "power_direct_nonorm s' = map (\<lambda>arr. map2 (\<lambda>v n. f_div xr_arith (f_mul xr_arith
         (if f_isnan xr_arith v then f_zero xr_arith else v)
         (f_of_nat xr_arith n)) (f_of_nat xr_arith n)) arr (nmodes s6)) (power_direct_nonorm s6)"
    by blast
  have "power_nonorm s' = power_nonorm s6"
    "power_direct_nonorm s' = [[XFin 0, XFin 0, XNaN, XFin 0]]"
    by (simp_all add: s'(4,5)) (simp_all add: s6_def xr_arith_def xr_inf_def)
  with s'(1,2,3) wf_s6 m show ?thesis by blast
qed

text \<open>
  C7 as stated fails: in an empty bin the default \<open>power_direct_nonorm\<close> is \<open>0\<close>, and
  \<^verbatim>\<open>rebin(1)\<close> turns it into \<open>0 * 0 / 0\<close>, which is NaN.
\<close>

theorem rebin_one_not_identity_counterexample:
  "wf_stat s7 \<and> power_direct_nonorm s7 = [[XFin 0]]
   \<and> (\<exists>s'. rebin xr_arith s7 [1] = Inr s' \<and> power_direct_nonorm s' = [[XNaN]])"
proof -
  have m: "(1::nat) \<le> length (edges s7)" by (simp add: s7_def)
  have "power_direct_nonorm s7 = [[XFin 0]]" by (simp add: s7_def)
  moreover have "\<exists>s'. rebin xr_arith s7 [1] = Inr s' \<and> power_direct_nonorm s' = [[XNaN]]"
  proof -
    obtain X where X: "rebin xr_arith s7 (replicate 1 1) = Inr X"
      "power_direct_nonorm X = map (\<lambda>arr. map2 (\<lambda>v n. f_div xr_arith (f_mul xr_arith
         (if f_isnan xr_arith v then f_zero xr_arith else v)
         (f_of_nat xr_arith n)) (f_of_nat xr_arith n)) arr (nmodes s7)) (power_direct_nonorm s7)"
      using rebin_ones [OF wf_s7 m, of xr_arith] by simp
    have "rebin xr_arith s7 [1] = Inr X" using X(1) by simp
    moreover have "power_direct_nonorm X = [[XNaN]]"
      by (simp add: X(2)) (simp add: s7_def xr_arith_def xr_inf_def)
    ultimately show ?thesis by blast
  qed
  ultimately show ?thesis using wf_s7 by simp
qed

section \<open>Configuration errors at setup\<close>

lemma set_edges_short:
  assumes "kedges_of derive k = Inr l" and "length l < 2 \<or> (\<exists>m. mu = Some m \<and> length m < 2)"
  shows "isl (set_edges derive rank0 los_type k mu)"
  using assms by (auto simp: set_edges_def split: option.splits sum.splits)

lemma init_trace: "isl (snd (init unit derive a)) \<Longrightarrow> set (fst (init unit derive a)) \<subseteq> {Paint}"
  by (auto simp: init_def split: option.splits sum.splits prod.splits)

text \<open>
  C9, as amended. \<^verbatim>\<open>__init__\<close> ends with an error, before any transform or binning,
  in each of these cases: the line-of-sight string, once in lower case, is none of
  \<open>firstpoint\<close>, \<open>endpoint\<close>, \<open>x\<close>, \<open>y\<close>, \<open>z\<close>; a multipole order is negative; the
  \<open>k\<close>-edges or the \<open>mu\<close>-edges have fewer than two entries. In the first two cases
  nothing at all has been done yet; in the last, catalogs may have been painted.
\<close>

theorem configuration_errors_at_setup:
  shows "(lower s \<notin> set allowed_los \<and> arg_los a = LosStr s \<longrightarrow>
            isl (snd (init unit derive a)) \<and> fst (init unit derive a) = [])
     \<and> ((\<exists>l. (arg_ells a = EllsSeq l \<or> (\<exists>e. arg_ells a = EllsScalar e \<and> l = [e]))
              \<and> (\<exists>ell \<in> set l. ell < 0)) \<longrightarrow>
            isl (snd (init unit derive a)) \<and> fst (init unit derive a) = [])
     \<and> ((\<exists>l. kedges_of derive (arg_kedges a) = Inr l \<and> length l < 2)
            \<or> (\<exists>m. arg_muedges a = Some m \<and> length m < 2) \<longrightarrow>
            isl (snd (init unit derive a)) \<and> set (fst (init unit derive a)) \<subseteq> {Paint})"
proof (intro conjI impI)
  assume "lower s \<notin> set allowed_los \<and> arg_los a = LosStr s"
  then have "get_los unit (arg_los a) = Inl ValueError" by (simp add: get_los_def)
  then show "isl (snd (init unit derive a))" "fst (init unit derive a) = []"
    by (simp_all add: init_def split: option.splits)
next
  assume "\<exists>l. (arg_ells a = EllsSeq l \<or> (\<exists>e. arg_ells a = EllsScalar e \<and> l = [e]))
              \<and> (\<exists>ell \<in> set l. ell < 0)"
  then have "set_ells lt lo (arg_ells a) = Inl ValueError" for lt lo
    by (auto simp: set_ells_def)
  then show "isl (snd (init unit derive a))" "fst (init unit derive a) = []"
    by (auto simp: init_def split: option.splits sum.splits)
next
  assume h: "(\<exists>l. kedges_of derive (arg_kedges a) = Inr l \<and> length l < 2)
            \<or> (\<exists>m. arg_muedges a = Some m \<and> length m < 2)"
  have e: "isl (set_edges derive r lt (arg_kedges a) (arg_muedges a))" for r lt
  proof (cases "kedges_of derive (arg_kedges a)")
    case (Inl e)
    then show ?thesis by (simp add: set_edges_def)
  next
    case (Inr l)
    with h show ?thesis by (intro set_edges_short [OF Inr]) auto
  qed
  have e': "set_edges derive r lt (arg_kedges a) (arg_muedges a) \<noteq> Inr es" for r lt es
    using e [of r lt] by auto
  show "isl (snd (init unit derive a))"
    using e' by (auto simp: init_def split: option.splits sum.splits)
  then show "set (fst (init unit derive a)) \<subseteq> {Paint}"
    by (rule init_trace)
qed

theorem configuration_errors_at_setup_witness:
  "lower ''w'' \<notin> set allowed_los
   \<and> init (\<lambda>v. v) (\<lambda>a b c. Inr []) (a9\<lparr>arg_los := LosStr ''w''\<rparr>) = ([], Inl ValueError)
   \<and> init (\<lambda>v. v) (\<lambda>a b c. Inr []) (a9\<lparr>arg_ells := EllsSeq [0, - 2]\<rparr>) = ([], Inl ValueError)
   \<and> init (\<lambda>v. v) (\<lambda>a b c. Inr []) (a9\<lparr>arg_kedges := KSeq [1]\<rparr>) = ([Paint], Inl ValueError)
   \<and> init (\<lambda>v. v) (\<lambda>a b c. Inr []) (a9\<lparr>arg_muedges := Some [1]\<rparr>) = ([Paint], Inl ValueError)
   \<and> init (\<lambda>v. v) (\<lambda>a b c. Inr []) a9 = ([Paint, Transform, Binning], Inr ([0, 1], [- 1, 1]))"
proof -
  have w: "lower ''w'' \<notin> set allowed_los"
    by (simp add: lower_def lower_char_def allowed_los_def)
  have x: "get_los (\<lambda>v. v) (LosStr ''x'') = Inr (''global'', Some [1, 0, 0])"
    by (simp add: get_los_def lower_def lower_char_def allowed_los_def global_axis_def index_of_def)
  have 1: "isl (snd (init (\<lambda>v. v) (\<lambda>a b c. Inr []) (a9\<lparr>arg_los := LosStr ''w''\<rparr>)))
           \<and> fst (init (\<lambda>v. v) (\<lambda>a b c. Inr []) (a9\<lparr>arg_los := LosStr ''w''\<rparr>)) = []"
    using configuration_errors_at_setup [of "''w''" "a9\<lparr>arg_los := LosStr ''w''\<rparr>" "\<lambda>v. v" "\<lambda>a b c. Inr []"] w
    by simp
  have "init (\<lambda>v. v) (\<lambda>a b c. Inr []) (a9\<lparr>arg_los := LosStr ''w''\<rparr>) = ([], Inl ValueError)"
    using w by (simp add: init_def a9_def get_los_def)
  moreover have "init (\<lambda>v. v) (\<lambda>a b c. Inr []) (a9\<lparr>arg_ells := EllsSeq [0, - 2]\<rparr>) = ([], Inl ValueError)"
    by (simp add: init_def a9_def x set_ells_def)
  moreover have "init (\<lambda>v. v) (\<lambda>a b c. Inr []) (a9\<lparr>arg_kedges := KSeq [1]\<rparr>) = ([Paint], Inl ValueError)"
    by (simp add: init_def a9_def x set_ells_def set_edges_def kedges_of_def)
  moreover have "init (\<lambda>v. v) (\<lambda>a b c. Inr []) (a9\<lparr>arg_muedges := Some [1]\<rparr>) = ([Paint], Inl ValueError)"
    by (simp add: init_def a9_def x set_ells_def set_edges_def kedges_of_def)
  moreover have "init (\<lambda>v. v) (\<lambda>a b c. Inr []) a9 = ([Paint, Transform, Binning], Inr ([0, 1], [- 1, 1]))"
    by (simp add: init_def a9_def x set_ells_def set_edges_def kedges_of_def)
  ultimately show ?thesis using w 1 by simp
qed

text \<open>
  C9 as stated fails: the string \<open>X\<close> is outside the set of keywords, and is accepted
  as the axis \<open>x\<close>, because \<^verbatim>\<open>_get_los\<close> compares \<^verbatim>\<open>los.lower()\<close>.
\<close>

theorem los_keyword_case_counterexample:
  "''X'' \<notin> set allowed_los
   \<and> get_los (\<lambda>v. v) (LosStr ''X'') = Inr (''global'', Some [1, 0, 0])
   \<and> init (\<lambda>v. v) (\<lambda>a b c. Inr []) (a9\<lparr>arg_los := LosStr ''X''\<rparr>)
       = ([Paint, Transform, Binning], Inr ([0, 1], [- 1, 1]))"
proof -
  have x: "get_los (\<lambda>v. v) (LosStr ''X'') = Inr (''global'', Some [1, 0, 0])"
    by (simp add: get_los_def lower_def lower_char_def allowed_los_def global_axis_def index_of_def)
  have "init (\<lambda>v. v) (\<lambda>a b c. Inr []) (a9\<lparr>arg_los := LosStr ''X''\<rparr>)
       = ([Paint, Transform, Binning], Inr ([0, 1], [- 1, 1]))"
    by (simp add: init_def a9_def x set_ells_def set_edges_def kedges_of_def)
  with x show ?thesis by (simp add: allowed_los_def)
qed

section \<open>Properties of the unique edges\<close>

lemma norm2_nonneg: "0 \<le> norm2 p"
  unfolding norm2_def by (induction p) simp_all

lemma ukey_floor:
  assumes "key_fits x0 v"
  shows "ukey x0 v = \<lfloor>v / (0.5 * x0) ^ 2 + 0.5\<rfloor>"
proof -
  define y where "y = v / (0.5 * x0) ^ 2 + 0.5"
  have "0 \<le> v / (0.5 * x0) ^ 2" using assms by (simp add: key_fits_def)
  then have y0: "0 \<le> y" by (simp add: y_def)
  have y1: "y < 2 ^ 63" using assms by (simp add: key_fits_def y_def)
  have t: "trunc y = \<lfloor>y\<rfloor>" using y0 by (simp add: trunc_def)
  have "0 \<le> \<lfloor>y\<rfloor>" using y0 by simp
  then have lo: "- (2 ^ 63) \<le> \<lfloor>y\<rfloor>" by simp
  have "\<lfloor>y\<rfloor> < 2 ^ 63" using y1 by (simp add: floor_less_iff)
  with lo t have "int64 y = \<lfloor>y\<rfloor>" by (simp add: int64_def)
  then show ?thesis by (simp add: ukey_def y_def)
qed

lemma ukey_mono:
  assumes "key_fits x0 a" and "key_fits x0 b" and "a \<le> b"
  shows "ukey x0 a \<le> ukey x0 b"
  unfolding ukey_floor [OF assms(1)] ukey_floor [OF assms(2)]
  using assms(3) by (intro floor_mono) (simp add: divide_right_mono)

lemma unique_by_keys:
  "map (ukey x0) (unique_by x0 x2) = sort (remdups (map (ukey x0) x2))"
proof -
  have "ukey x0 (hd (filter (\<lambda>v. ukey x0 v = k) x2)) = k" if "k \<in> set (map (ukey x0) x2)" for k
  proof -
    from that have "filter (\<lambda>v. ukey x0 v = k) x2 \<noteq> []" by (auto simp: filter_empty_conv)
    then have "hd (filter (\<lambda>v. ukey x0 v = k) x2) \<in> set (filter (\<lambda>v. ukey x0 v = k) x2)"
      by (rule hd_in_set)
    then show ?thesis by simp
  qed
  then have "map (\<lambda>k. ukey x0 (hd (filter (\<lambda>v. ukey x0 v = k) x2))) (sort (remdups (map (ukey x0) x2)))
             = map (\<lambda>k. k) (sort (remdups (map (ukey x0) x2)))"
    by (intro map_cong) simp_all
  then show ?thesis
    unfolding unique_by_def by (simp add: comp_def)
qed

lemma unique_by_subset: "set (unique_by x0 x2) \<subseteq> set x2"
proof
  fix v assume "v \<in> set (unique_by x0 x2)"
  then obtain k where k: "k \<in> set (map (ukey x0) x2)" "v = hd (filter (\<lambda>v. ukey x0 v = k) x2)"
    by (auto simp: unique_by_def)
  from k(1) have "filter (\<lambda>v. ukey x0 v = k) x2 \<noteq> []" by (auto simp: filter_empty_conv)
  then have "hd (filter (\<lambda>v. ukey x0 v = k) x2) \<in> set (filter (\<lambda>v. ukey x0 v = k) x2)"
    by (rule hd_in_set)
  with k(2) show "v \<in> set x2" by simp
qed

lemma unique_by_set:
  assumes "inj_on (ukey x0) (set x2)"
  shows "set (unique_by x0 x2) = set x2"
proof
  show "set (unique_by x0 x2) \<subseteq> set x2" by (rule unique_by_subset)
  show "set x2 \<subseteq> set (unique_by x0 x2)"
  proof
    fix v assume v: "v \<in> set x2"
    let ?r = "hd (filter (\<lambda>w. ukey x0 w = ukey x0 v) x2)"
    from v have "filter (\<lambda>w. ukey x0 w = ukey x0 v) x2 \<noteq> []" by (auto simp: filter_empty_conv)
    then have "?r \<in> set (filter (\<lambda>w. ukey x0 w = ukey x0 v) x2)" by (rule hd_in_set)
    then have "?r \<in> set x2" "ukey x0 ?r = ukey x0 v" by simp_all
    with assms v have "?r = v" by (auto dest: inj_onD)
    moreover have "?r \<in> set (unique_by x0 x2)" using v by (simp add: unique_by_def)
    ultimately show "v \<in> set (unique_by x0 x2)" by simp
  qed
qed

lemma strict_by_keys:
  assumes "sorted_wrt (<) (map (ukey x0) vs)" and "\<forall>v \<in> set vs. key_fits x0 v"
  shows "sorted_wrt (<) vs"
proof -
  have "vs ! i < vs ! j" if "i < j" "j < length vs" for i j
  proof (rule ccontr)
    assume "\<not> vs ! i < vs ! j"
    then have "vs ! j \<le> vs ! i" by simp
    moreover have "key_fits x0 (vs ! j)" "key_fits x0 (vs ! i)" using assms(2) that by simp_all
    ultimately have "ukey x0 (vs ! j) \<le> ukey x0 (vs ! i)" by (intro ukey_mono)
    moreover have "ukey x0 (vs ! i) < ukey x0 (vs ! j)"
      using assms(1) that by (simp add: sorted_wrt_iff_nth_less)
    ultimately show False by simp
  qed
  then show ?thesis by (simp add: sorted_wrt_iff_nth_less)
qed

lemma unique_by_strict:
  assumes "\<forall>v \<in> set x2. key_fits x0 v"
  shows "sorted_wrt (<) (unique_by x0 x2)"
proof (rule strict_by_keys)
  have "sorted (sort (remdups (map (ukey x0) x2)))" "distinct (sort (remdups (map (ukey x0) x2)))"
    by simp_all
  then show "sorted_wrt (<) (map (ukey x0) (unique_by x0 x2))"
    by (simp add: unique_by_keys strict_sorted_iff)
  show "\<forall>v \<in> set (unique_by x0 x2). key_fits x0 v"
    using assms unique_by_subset by blast
qed

lemma unique_local_subset: "set (unique_local x0 xmin xmax x) \<subseteq> norm2 ` set x"
  using unique_by_subset [of x0 "map norm2 x"] by (auto simp: unique_local_def)

lemma unique_norms_strict:
  assumes "\<forall>x \<in> set xs. \<forall>p \<in> set x. key_fits x0 (norm2 p)"
  shows "sorted_wrt (<) (unique_norms x0 xmin xmax xs)"
proof -
  have "\<forall>v \<in> set (concat (map (unique_local x0 xmin xmax) xs)). key_fits x0 v"
    using assms unique_local_subset by fastforce
  then have "sorted_wrt (<) (unique_by x0 (concat (map (unique_local x0 xmin xmax) xs)))"
    by (rule unique_by_strict)
  then show ?thesis
    unfolding unique_norms_def by (simp add: sorted_wrt_map)
qed

lemma unique_norms_set:
  assumes "inj_on (ukey x0) (\<Union>x \<in> set xs. norm2 ` set x)"
  shows "set (unique_norms x0 xmin xmax xs) =
         sqrt ` {v \<in> (\<Union>x \<in> set xs. norm2 ` set x). xmin ^ 2 \<le> v \<and> le_max v xmax}"
proof -
  have loc: "set (unique_local x0 xmin xmax x) = {v \<in> norm2 ` set x. xmin ^ 2 \<le> v \<and> le_max v xmax}"
    if x: "x \<in> set xs" for x
  proof -
    have "norm2 ` set x \<subseteq> (\<Union>x \<in> set xs. norm2 ` set x)" using x by blast
    with assms have "inj_on (ukey x0) (set (map norm2 x))" by (auto intro: inj_on_subset)
    then have "set (unique_by x0 (map norm2 x)) = set (map norm2 x)" by (rule unique_by_set)
    then show ?thesis by (auto simp: unique_local_def)
  qed
  have c: "set (concat (map (unique_local x0 xmin xmax) xs))
           = {v \<in> (\<Union>x \<in> set xs. norm2 ` set x). xmin ^ 2 \<le> v \<and> le_max v xmax}"
    using loc by auto
  have "inj_on (ukey x0) (set (concat (map (unique_local x0 xmin xmax) xs)))"
    unfolding c using assms by (rule inj_on_subset) blast
  then have "set (unique_by x0 (concat (map (unique_local x0 xmin xmax) xs)))
             = set (concat (map (unique_local x0 xmin xmax) xs))"
    by (rule unique_by_set)
  then have "set (unique_norms x0 xmin xmax xs)
             = sqrt ` set (concat (map (unique_local x0 xmin xmax) xs))"
    by (simp only: unique_norms_def set_map)
  then show ?thesis by (simp only: c)
qed

lemma unique_norms_bounds:
  assumes "v \<in> set (unique_norms x0 xmin xmax xs)"
  shows "\<bar>xmin\<bar> \<le> v" and "xmax = Some m \<Longrightarrow> v \<le> \<bar>m\<bar>"
proof -
  from assms obtain w where w: "v = sqrt w"
    "w \<in> set (unique_by x0 (concat (map (unique_local x0 xmin xmax) xs)))"
    by (auto simp: unique_norms_def)
  from w(2) unique_by_subset have "w \<in> set (concat (map (unique_local x0 xmin xmax) xs))" by blast
  then have b: "xmin ^ 2 \<le> w" "le_max w xmax" by (auto simp: unique_local_def)
  have "sqrt (xmin ^ 2) \<le> sqrt w" using b(1) by (simp only: real_sqrt_le_iff)
  then show "\<bar>xmin\<bar> \<le> v" using w(1) by simp
  show "v \<le> \<bar>m\<bar>" if "xmax = Some m"
  proof -
    have "w \<le> m ^ 2" using b(2) that by (simp add: le_max_def)
    then have "sqrt w \<le> sqrt (m ^ 2)" by (simp only: real_sqrt_le_iff)
    then show ?thesis using w(1) by simp
  qed
qed

lemma diff_nth: "Suc i < length fx \<Longrightarrow> diff fx ! i = fx ! Suc i - fx ! i"
  by (simp add: diff_def nth_tl)

lemma length_diff: "length (diff fx) = length fx - 1"
  by (simp add: diff_def)

lemma find_unique_edges_Inr:
  assumes "find_unique_edges xs x0 xmin xmax = Inr es"
  shows "2 \<le> length (unique_norms x0 xmin xmax xs)"
    and "length es = length (unique_norms x0 xmin xmax xs) + 1"
    and "es ! 0 = xmin"
    and "Suc i < length (unique_norms x0 xmin xmax xs) \<Longrightarrow>
           es ! Suc i = (unique_norms x0 xmin xmax xs ! i + unique_norms x0 xmin xmax xs ! Suc i) / 2"
    and "es ! length (unique_norms x0 xmin xmax xs) =
           min_max (last (unique_norms x0 xmin xmax xs)
                    + (last (unique_norms x0 xmin xmax xs)
                       - unique_norms x0 xmin xmax xs ! (length (unique_norms x0 xmin xmax xs) - 2)) / 2) xmax"
proof -
  define fx where "fx = unique_norms x0 xmin xmax xs"
  define mids where "mids = map2 (\<lambda>a w. a - w / 2) (tl fx) (diff fx)"
  define le where "le = min_max (last fx + last (diff fx) / 2) xmax"
  from assms have ne: "fx \<noteq> []" "diff fx \<noteq> []" and es: "es = xmin # mids @ [le]"
    by (auto simp: find_unique_edges_def Let_def fx_def mids_def le_def split: if_splits)
  from ne(2) have "0 < length (diff fx)" by simp
  then have n: "2 \<le> length fx" by (simp add: length_diff)
  have lm: "length mids = length fx - 1" by (simp add: mids_def length_diff)
  have len: "length es = length fx + 1" using n by (simp add: es lm)
  have e0: "es ! 0 = xmin" by (simp add: es)
  have dl: "length (diff fx) - 1 = length fx - 2" by (simp add: length_diff)
  have "last (diff fx) = diff fx ! (length fx - 2)"
    using last_conv_nth [OF ne(2)] dl by simp
  also have "\<dots> = fx ! Suc (length fx - 2) - fx ! (length fx - 2)"
    using n by (intro diff_nth) arith
  also have "Suc (length fx - 2) = length fx - 1" using n by arith
  finally have ld: "last (diff fx) = last fx - fx ! (length fx - 2)"
    using last_conv_nth [OF ne(1)] by simp
  have "length (xmin # mids) = length fx" using n by (simp add: lm)
  then have "es ! length fx = ((xmin # mids) @ [le]) ! length (xmin # mids)"
    by (simp only: es append_Cons)
  also have "\<dots> = le" by (simp only: nth_append_length)
  finally have el: "es ! length fx = min_max (last fx + (last fx - fx ! (length fx - 2)) / 2) xmax"
    by (simp only: le_def ld)
  have em: "es ! Suc i = (fx ! i + fx ! Suc i) / 2" if i: "Suc i < length fx" for i
  proof -
    have il: "i < length mids" using i by (simp add: lm)
    have "es ! Suc i = (mids @ [le]) ! i" by (simp only: es nth_Cons_Suc)
    also have "\<dots> = mids ! i" using il by (simp only: nth_append if_True)
    also have "\<dots> = tl fx ! i - diff fx ! i / 2"
      using il by (simp add: mids_def)
    also have "\<dots> = fx ! Suc i - (fx ! Suc i - fx ! i) / 2"
      using i by (simp only: diff_nth nth_tl) (simp add: nth_tl)
    finally show ?thesis by (simp add: field_simps)
  qed
  show "2 \<le> length (unique_norms x0 xmin xmax xs)" using n by (simp only: fx_def)
  show "length es = length (unique_norms x0 xmin xmax xs) + 1" using len by (simp only: fx_def)
  show "es ! 0 = xmin" by (rule e0)
  show "es ! length (unique_norms x0 xmin xmax xs) =
           min_max (last (unique_norms x0 xmin xmax xs)
                    + (last (unique_norms x0 xmin xmax xs)
                       - unique_norms x0 xmin xmax xs ! (length (unique_norms x0 xmin xmax xs) - 2)) / 2) xmax"
    using el by (simp only: fx_def)
  show "es ! Suc i = (unique_norms x0 xmin xmax xs ! i + unique_norms x0 xmin xmax xs ! Suc i) / 2"
    if "Suc i < length (unique_norms x0 xmin xmax xs)"
    using em [of i] that by (simp only: fx_def)
qed

lemma diff_Nil: "diff fx = [] \<longleftrightarrow> length fx < 2"
proof -
  have "(diff fx = []) = (length (diff fx) = 0)" by simp
  also have "\<dots> = (length fx < 2)" unfolding length_diff by arith
  finally show ?thesis .
qed

lemma find_unique_edges_ex:
  assumes "2 \<le> length (unique_norms x0 xmin xmax xs)"
  shows "\<exists>es. find_unique_edges xs x0 xmin xmax = Inr es"
proof -
  from assms have "unique_norms x0 xmin xmax xs \<noteq> []" by auto
  moreover from assms have "diff (unique_norms x0 xmin xmax xs) \<noteq> []" by (simp add: diff_Nil)
  ultimately show ?thesis by (simp add: find_unique_edges_def Let_def)
qed

lemma mid_between: "(a::real) < b \<Longrightarrow> a < (a + b) / 2 \<and> (a + b) / 2 < b"
  by (simp add: field_simps)

lemma edges_facts:
  assumes st: "sorted_wrt (<) fx" and r: "find_unique_edges xs x0 xmin xmax = Inr es"
    and fx: "fx = unique_norms x0 xmin xmax xs"
  shows "i < length fx \<Longrightarrow> es ! i \<le> fx ! i"
    and "Suc i < length fx \<Longrightarrow> fx ! i < es ! Suc i \<and> es ! Suc i < fx ! Suc i"
    and "fx ! (length fx - 1) < es ! length fx \<longleftrightarrow> below_max (last fx) xmax"
    and "(\<And>m. xmax = Some m \<Longrightarrow> 0 \<le> m) \<Longrightarrow> fx ! (length fx - 1) \<le> es ! length fx"
    and "xmax = Some m \<Longrightarrow> es ! length fx \<le> m"
proof -
  note s = find_unique_edges_Inr [OF r, folded fx]
  have inc: "fx ! k < fx ! Suc k" if "Suc k < length fx" for k
    using st that by (simp add: sorted_wrt_iff_nth_less)
  have ne: "fx \<noteq> []" using s(1) by auto
  have l: "last fx = fx ! (length fx - 1)" using ne by (rule last_conv_nth)
  have n2: "Suc (length fx - 2) = length fx - 1" "length fx - 2 < length fx"
    "Suc (length fx - 2) < length fx" "0 < length fx" using s(1) by arith+
  have gap: "fx ! (length fx - 2) < fx ! (length fx - 1)"
    using inc [OF n2(3)] by (simp only: n2(1))
  have mid: "fx ! k < es ! Suc k \<and> es ! Suc k < fx ! Suc k" if "Suc k < length fx" for k
    using mid_between [OF inc [OF that]] s(4) [OF that] by simp
  show "fx ! i < es ! Suc i \<and> es ! Suc i < fx ! Suc i" if "Suc i < length fx"
    using that by (rule mid)
  show "es ! i \<le> fx ! i" if i: "i < length fx"
  proof (cases i)
    case 0
    have "fx ! 0 \<in> set fx" using n2(4) by (intro nth_mem)
    then have "\<bar>xmin\<bar> \<le> fx ! 0" unfolding fx by (rule unique_norms_bounds(1))
    then show ?thesis using 0 s(3) by simp
  next
    case (Suc k)
    with i mid [of k] show ?thesis by simp
  qed
  have el: "es ! length fx = min_max (fx ! (length fx - 1) + (fx ! (length fx - 1) - fx ! (length fx - 2)) / 2) xmax"
    using s(5) by (simp only: l)
  show "fx ! (length fx - 1) < es ! length fx \<longleftrightarrow> below_max (last fx) xmax"
    using gap by (cases xmax) (simp_all add: el l min_max_def below_max_def)
  show "fx ! (length fx - 1) \<le> es ! length fx" if m: "\<And>m. xmax = Some m \<Longrightarrow> 0 \<le> m"
  proof (cases xmax)
    case None
    then show ?thesis using gap by (simp add: el min_max_def)
  next
    case (Some m)
    have "fx ! (length fx - 1) \<in> set fx" using n2(4) by (intro nth_mem) simp
    then have "fx ! (length fx - 1) \<le> \<bar>m\<bar>" unfolding fx using Some by (rule unique_norms_bounds(2))
    moreover have "0 \<le> m" using Some by (rule m)
    ultimately show ?thesis using gap Some by (simp add: el min_max_def)
  qed
  show "es ! length fx \<le> m" if "xmax = Some m"
    using that by (simp add: el min_max_def)
qed

lemma edges_strict:
  assumes st: "sorted_wrt (<) (unique_norms x0 xmin xmax xs)"
    and r: "find_unique_edges xs x0 xmin xmax = Inr es"
    and m: "\<And>m. xmax = Some m \<Longrightarrow> 0 \<le> m"
  shows "sorted_wrt (<) es"
proof -
  define fx where fx: "fx = unique_norms x0 xmin xmax xs"
  note s = find_unique_edges_Inr [OF r, folded fx]
  note f = edges_facts [OF st [folded fx] r fx]
  have step: "es ! i < es ! Suc i" if i: "Suc i < length es" for i
  proof (cases "Suc i < length fx")
    case True
    then have "es ! i \<le> fx ! i" by (intro f(1)) simp
    with f(2) [OF True] show ?thesis by simp
  next
    case False
    with i s(2) have e: "Suc i = length fx" by simp
    then obtain k where k: "i = Suc k" using s(1) by (cases i) auto
    have "Suc k < length fx" using e k by simp
    then have "es ! Suc k < fx ! Suc k" using f(2) by blast
    moreover have "fx ! (length fx - 1) \<le> es ! length fx" using m by (rule f(4))
    moreover have "length fx - 1 = Suc k" using e k by simp
    ultimately show ?thesis using e k by simp
  qed
  have "transp ((<) :: real \<Rightarrow> real \<Rightarrow> bool)" by (rule transp_on_less)
  then show ?thesis using step by (simp add: sorted_wrt_iff_nth_Suc_transp)
qed

lemma one_value_per_bin:
  assumes st: "sorted_wrt (<) fx" and r: "find_unique_edges xs x0 xmin xmax = Inr es"
    and fx: "fx = unique_norms x0 xmin xmax xs"
    and i: "i < length fx" and j: "j < length fx"
  shows "in_bin es i (fx ! j) \<longleftrightarrow> j = i \<and> (Suc i = length fx \<longrightarrow> below_max (last fx) xmax)"
proof -
  note f = edges_facts [OF st r fx]
  consider "j < i" | "i < j" | "j = i" by arith
  then show ?thesis
  proof cases
    case 1
    then obtain k where k: "i = Suc k" by (cases i) auto
    have "fx ! j \<le> fx ! k"
    proof (cases "j = k")
      case False
      with 1 k have "j < k" by simp
      moreover have "k < length fx" using i k by simp
      ultimately have "fx ! j < fx ! k" using st by (simp add: sorted_wrt_iff_nth_less)
      then show ?thesis by simp
    qed simp
    moreover have "fx ! k < es ! Suc k" using f(2) [of k] i k by simp
    ultimately have "\<not> es ! i \<le> fx ! j" using k by simp
    then show ?thesis using 1 by (simp add: in_bin_def)
  next
    case 2
    then have si: "Suc i < length fx" using j by simp
    have "fx ! Suc i \<le> fx ! j"
    proof (cases "j = Suc i")
      case False
      with 2 have "Suc i < j" by simp
      then have "fx ! Suc i < fx ! j" using st j by (simp add: sorted_wrt_iff_nth_less)
      then show ?thesis by simp
    qed simp
    moreover have "es ! Suc i < fx ! Suc i" using f(2) [OF si] by simp
    ultimately have "\<not> fx ! j < es ! Suc i" by simp
    then show ?thesis using 2 by (simp add: in_bin_def)
  next
    case 3
    have lo: "es ! i \<le> fx ! i" using i by (rule f(1))
    show ?thesis
    proof (cases "Suc i = length fx")
      case True
      then have "length fx - 1 = i" by simp
      with f(3) have "fx ! i < es ! Suc i \<longleftrightarrow> below_max (last fx) xmax" using True by simp
      then show ?thesis using 3 lo True by (simp add: in_bin_def)
    next
      case False
      with i have "Suc i < length fx" by simp
      then have "fx ! i < es ! Suc i" using f(2) by blast
      then show ?thesis using 3 lo False by (simp add: in_bin_def)
    qed
  qed
qed

text \<open>
  C8, as amended. Take a nonzero fundamental separation \<open>x0\<close> and \<open>xmin\<close> not negative.
  Suppose that the squared norms of the points of all processes are discrete (two of
  them that round to the same multiple of \<open>(x0 / 2)\<^sup>2\<close> are equal) and small enough
  for their keys to fit in 64 bits, that no point has the norm \<open>xmax\<close>, and that two
  points with different norms lie between \<open>xmin\<close> and \<open>xmax\<close>. Then
  \<^verbatim>\<open>find_unique_edges\<close> returns edges \<open>es\<close>, one more than there are unique norms
  \<open>fx\<close>. The unique norms are, in increasing order and without repetition, the norms
  of the points of all processes whose square lies between \<open>xmin\<^sup>2\<close> and \<open>xmax\<^sup>2\<close>. The
  first edge is \<open>xmin\<close>, the interior edges are the midpoints of consecutive unique
  norms, the last edge is the minimum of \<open>xmax\<close> and the last norm plus half the last
  gap, and the edges increase strictly. Every half-open bin holds exactly one norm
  value of the input: bin \<open>i\<close> holds the norm of a point of any process exactly when
  that norm is \<open>fx ! i\<close>.
\<close>

theorem unique_edges_one_value_per_bin:
  assumes x0: "x0 \<noteq> 0" and xmin: "0 \<le> xmin"
    and fit: "\<forall>x \<in> set xs. \<forall>p \<in> set x. norm2 p / (0.5 * x0) ^ 2 + 0.5 < 2 ^ 63"
    and disc: "\<forall>x \<in> set xs. \<forall>p \<in> set x. \<forall>y \<in> set xs. \<forall>q \<in> set y.
                 \<lfloor>norm2 p / (0.5 * x0) ^ 2 + 0.5\<rfloor> = \<lfloor>norm2 q / (0.5 * x0) ^ 2 + 0.5\<rfloor>
                 \<longrightarrow> norm2 p = norm2 q"
    and top: "\<forall>m. xmax = Some m \<longrightarrow> 0 \<le> m \<and> (\<forall>x \<in> set xs. \<forall>p \<in> set x. norm2 p \<noteq> m ^ 2)"
    and two: "xa \<in> set xs" "pa \<in> set xa" "xb \<in> set xs" "pb \<in> set xb" "norm2 pa \<noteq> norm2 pb"
      "xmin ^ 2 \<le> norm2 pa" "le_max (norm2 pa) xmax" "xmin ^ 2 \<le> norm2 pb" "le_max (norm2 pb) xmax"
    and fx: "fx = unique_norms x0 xmin xmax xs"
  shows "\<exists>es. find_unique_edges xs x0 xmin xmax = Inr es
     \<and> length es = length fx + 1
     \<and> es ! 0 = xmin
     \<and> (\<forall>i. Suc i < length fx \<longrightarrow> es ! Suc i = (fx ! i + fx ! Suc i) / 2)
     \<and> last es = min_max (last fx + (last fx - fx ! (length fx - 2)) / 2) xmax
     \<and> sorted_wrt (<) es
     \<and> sorted_wrt (<) fx
     \<and> (\<forall>n. n \<in> set fx \<longleftrightarrow>
           (\<exists>x \<in> set xs. \<exists>p \<in> set x.
              n = sqrt (norm2 p) \<and> xmin ^ 2 \<le> norm2 p \<and> le_max (norm2 p) xmax))
     \<and> (\<forall>i < length fx. \<forall>x \<in> set xs. \<forall>p \<in> set x.
           in_bin es i (sqrt (norm2 p)) \<longleftrightarrow> sqrt (norm2 p) = fx ! i)"
proof -
  define S where "S = (\<Union>x \<in> set xs. norm2 ` set x)"
  have kf: "\<forall>x \<in> set xs. \<forall>p \<in> set x. key_fits x0 (norm2 p)"
    using fit by (simp add: key_fits_def norm2_nonneg)
  have inj: "inj_on (ukey x0) S"
  proof (rule inj_onI)
    fix u v assume "u \<in> S" "v \<in> S" and e: "ukey x0 u = ukey x0 v"
    then obtain x p y q where m: "x \<in> set xs" "p \<in> set x" "u = norm2 p"
      "y \<in> set xs" "q \<in> set y" "v = norm2 q"
      by (auto simp: S_def)
    have "key_fits x0 (norm2 p)" "key_fits x0 (norm2 q)" using kf m by simp_all
    then have "\<lfloor>norm2 p / (0.5 * x0) ^ 2 + 0.5\<rfloor> = \<lfloor>norm2 q / (0.5 * x0) ^ 2 + 0.5\<rfloor>"
      using e m(3,6) by (simp add: ukey_floor)
    then have "norm2 p = norm2 q" using disc m by blast
    then show "u = v" using m by simp
  qed
  have sfx: "set fx = sqrt ` {v \<in> S. xmin ^ 2 \<le> v \<and> le_max v xmax}"
    unfolding fx S_def using inj [unfolded S_def] by (rule unique_norms_set)
  have mem: "n \<in> set fx \<longleftrightarrow>
           (\<exists>x \<in> set xs. \<exists>p \<in> set x.
              n = sqrt (norm2 p) \<and> xmin ^ 2 \<le> norm2 p \<and> le_max (norm2 p) xmax)" for n
    unfolding sfx S_def by auto
  have st: "sorted_wrt (<) fx" unfolding fx using kf by (rule unique_norms_strict)
  have dist: "distinct fx" using st by (simp add: strict_sorted_iff)
  have a: "sqrt (norm2 pa) \<in> set fx" "sqrt (norm2 pb) \<in> set fx"
    using two mem by blast+
  have "sqrt (norm2 pa) \<noteq> sqrt (norm2 pb)" using two(5) by simp
  then have "card {sqrt (norm2 pa), sqrt (norm2 pb)} = 2" by simp
  moreover have "card {sqrt (norm2 pa), sqrt (norm2 pb)} \<le> card (set fx)"
    using a by (intro card_mono) simp_all
  moreover have "card (set fx) \<le> length fx" by (rule card_length)
  ultimately have n2: "2 \<le> length fx" by simp
  obtain es where r: "find_unique_edges xs x0 xmin xmax = Inr es"
    using find_unique_edges_ex n2 [unfolded fx] by blast
  note s = find_unique_edges_Inr [OF r, folded fx]
  note f = edges_facts [OF st r fx]
  have nn: "0 \<le> m" if "xmax = Some m" for m using top that by simp
  have so: "sorted_wrt (<) es" using st [unfolded fx] r nn by (rule edges_strict)
  have "es \<noteq> []" using s(2) by auto
  then have "last es = es ! (length es - 1)" by (rule last_conv_nth)
  also have "\<dots> = es ! length fx" by (simp add: s(2))
  finally have l: "last es = min_max (last fx + (last fx - fx ! (length fx - 2)) / 2) xmax"
    by (simp only: s(5))
  have lf: "last fx \<in> set fx" using n2 by (intro last_in_set) auto
  have bel: "below_max (last fx) xmax"
  proof (cases xmax)
    case None
    then show ?thesis by (simp add: below_max_def)
  next
    case (Some m)
    from lf mem obtain x p where xp: "x \<in> set xs" "p \<in> set x" "last fx = sqrt (norm2 p)"
      "le_max (norm2 p) xmax" by blast
    have "norm2 p \<le> m ^ 2" using xp(4) Some by (simp add: le_max_def)
    moreover have "norm2 p \<noteq> m ^ 2" using top Some xp(1,2) by blast
    ultimately have "norm2 p < m ^ 2" by simp
    then have "sqrt (norm2 p) < sqrt (m ^ 2)" by (simp only: real_sqrt_less_iff)
    then have "sqrt (norm2 p) < m" using nn [OF Some] by simp
    then show ?thesis using Some xp(3) by (simp add: below_max_def)
  qed
  have bins: "in_bin es i (sqrt (norm2 p)) \<longleftrightarrow> sqrt (norm2 p) = fx ! i"
    if i: "i < length fx" and x: "x \<in> set xs" and p: "p \<in> set x" for i x p
  proof -
    have fi: "fx ! i \<in> set fx" using i by simp
    consider (mid) "xmin ^ 2 \<le> norm2 p \<and> le_max (norm2 p) xmax"
      | (low) "norm2 p < xmin ^ 2" | (high) "\<not> le_max (norm2 p) xmax"
      by fastforce
    then show ?thesis
    proof cases
      case mid
      then have "sqrt (norm2 p) \<in> set fx" using mem x p by blast
      then obtain j where j: "j < length fx" "fx ! j = sqrt (norm2 p)"
        by (auto simp: in_set_conv_nth)
      have "in_bin es i (fx ! j) \<longleftrightarrow> j = i"
        using one_value_per_bin [OF st r fx i j(1)] bel by simp
      moreover have "fx ! j = fx ! i \<longleftrightarrow> j = i"
        using dist i j(1) by (simp add: nth_eq_iff_index_eq)
      ultimately show ?thesis using j(2) by simp
    next
      case low
      then have "sqrt (norm2 p) < sqrt (xmin ^ 2)" by (simp only: real_sqrt_less_iff)
      then have nl: "sqrt (norm2 p) < xmin" using xmin by simp
      have "es ! 0 \<le> es ! i"
      proof (cases i)
        case (Suc k)
        have "es ! 0 < es ! i" using sorted_wrt_nth_less [OF so, of 0 i] i s(2) Suc by simp
        then show ?thesis by simp
      qed simp
      then have 1: "\<not> es ! i \<le> sqrt (norm2 p)" using nl s(3) by simp
      have "\<bar>xmin\<bar> \<le> fx ! i" using fi unfolding fx by (rule unique_norms_bounds(1))
      then have "sqrt (norm2 p) \<noteq> fx ! i" using nl by simp
      with 1 show ?thesis by (simp add: in_bin_def)
    next
      case high
      then obtain m where m: "xmax = Some m" "m ^ 2 < norm2 p"
        by (cases xmax) (auto simp: le_max_def)
      from m(2) have "sqrt (m ^ 2) < sqrt (norm2 p)" by (simp only: real_sqrt_less_iff)
      then have nh: "\<bar>m\<bar> < sqrt (norm2 p)" by simp
      have "es ! Suc i \<le> es ! length fx"
      proof (cases "Suc i = length fx")
        case False
        then have "es ! Suc i < es ! length fx"
          using sorted_wrt_nth_less [OF so, of "Suc i" "length fx"] i s(2) by simp
        then show ?thesis by simp
      qed simp
      moreover have "es ! length fx \<le> m" using m(1) by (rule f(5))
      ultimately have 1: "\<not> sqrt (norm2 p) < es ! Suc i" using nh by simp
      have "fx ! i \<le> \<bar>m\<bar>" using fi m(1) unfolding fx by (rule unique_norms_bounds(2))
      then have "sqrt (norm2 p) \<noteq> fx ! i" using nh by simp
      with 1 show ?thesis by (simp add: in_bin_def)
    qed
  qed
  show ?thesis
  proof (intro exI [of _ es] conjI)
    show "find_unique_edges xs x0 xmin xmax = Inr es" by (rule r)
    show "length es = length fx + 1" by (rule s(2))
    show "es ! 0 = xmin" by (rule s(3))
    show "\<forall>i. Suc i < length fx \<longrightarrow> es ! Suc i = (fx ! i + fx ! Suc i) / 2"
      using s(4) by blast
    show "last es = min_max (last fx + (last fx - fx ! (length fx - 2)) / 2) xmax" by (rule l)
    show "sorted_wrt (<) es" by (rule so)
    show "sorted_wrt (<) fx" by (rule st)
    show "\<forall>n. n \<in> set fx \<longleftrightarrow>
           (\<exists>x \<in> set xs. \<exists>p \<in> set x.
              n = sqrt (norm2 p) \<and> xmin ^ 2 \<le> norm2 p \<and> le_max (norm2 p) xmax)"
      using mem by blast
    show "\<forall>i < length fx. \<forall>x \<in> set xs. \<forall>p \<in> set x.
           in_bin es i (sqrt (norm2 p)) \<longleftrightarrow> sqrt (norm2 p) = fx ! i"
      using bins by blast
  qed
qed

lemma norm2_x8: "norm2 [0, 0] = 0" "norm2 [1, 0] = 1" "norm2 [0, 2] = 4" "norm2 [0, 1] = 1"
  by (simp_all add: norm2_def)

lemma norms_x8:
  "sqrt (norm2 [0, 0]) = 0" "sqrt (norm2 [1, 0]) = 1" "sqrt (norm2 [0, 2]) = 2"
  "sqrt (norm2 [0, 1]) = 1"
  by (simp_all add: norm2_x8)

lemma floors_one:
  "\<lfloor>(0::real) / (0.5 * 1) ^ 2 + 0.5\<rfloor> = 0" "\<lfloor>(1::real) / (0.5 * 1) ^ 2 + 0.5\<rfloor> = 4"
  "\<lfloor>(4::real) / (0.5 * 1) ^ 2 + 0.5\<rfloor> = 16"
proof -
  have a: "(0::real) / (0.5 * 1) ^ 2 + 0.5 = 1 / 2" "(1::real) / (0.5 * 1) ^ 2 + 0.5 = 9 / 2"
    "(4::real) / (0.5 * 1) ^ 2 + 0.5 = 33 / 2"
    by (simp_all add: power2_eq_square)
  have f: "\<lfloor>1 / 2 :: real\<rfloor> = 0" "\<lfloor>9 / 2 :: real\<rfloor> = 4" "\<lfloor>33 / 2 :: real\<rfloor> = 16"
    by simp_all
  show "\<lfloor>(0::real) / (0.5 * 1) ^ 2 + 0.5\<rfloor> = 0" "\<lfloor>(1::real) / (0.5 * 1) ^ 2 + 0.5\<rfloor> = 4"
    "\<lfloor>(4::real) / (0.5 * 1) ^ 2 + 0.5\<rfloor> = 16"
    unfolding a using f by simp_all
qed

lemma floors_half:
  "\<lfloor>(1::real) / (1 / 2) ^ 2 + 1 / 2\<rfloor> = 4" "\<lfloor>(4::real) / (1 / 2) ^ 2 + 1 / 2\<rfloor> = 16"
  using floors_one(2,3) by simp_all

lemma fits_one: "key_fits 1 0" "key_fits 1 1" "key_fits 1 4"
  by (simp_all add: key_fits_def power2_eq_square)

lemma ukey_one: "ukey 1 0 = 0" "ukey 1 1 = 4" "ukey 1 4 = 16"
  by (simp_all only: ukey_floor [OF fits_one(1)] ukey_floor [OF fits_one(2)]
      ukey_floor [OF fits_one(3)] floors_one)

lemma unique_norms_x8:
  assumes "2 \<le> m"
  shows "unique_norms 1 0 (Some m) x8 = [0, 1, 2]"
proof -
  have "2 ^ 2 \<le> m ^ 2" using assms by (intro power_mono) simp_all
  then have m: "4 \<le> m ^ 2" "1 \<le> m ^ 2" by simp_all
  have 1: "unique_local 1 0 (Some m) [[0, 0], [1, 0]] = [0, 1]"
    by (simp add: unique_local_def unique_by_def norm2_x8 ukey_one le_max_def m)
  have 2: "unique_local 1 0 (Some m) [[0, 2], [0, 1]] = [1, 4]"
    by (simp add: unique_local_def unique_by_def norm2_x8 ukey_one le_max_def m)
  have "unique_by 1 [0, 1, 1, 4] = [0, 1, 4]"
    by (simp add: unique_by_def ukey_one)
  then show ?thesis by (simp add: unique_norms_def x8_def 1 2)
qed

lemma find_unique_edges_x8:
  assumes "2 \<le> m"
  shows "find_unique_edges x8 1 0 (Some m) = Inr [0, 1 / 2, 3 / 2, min (5 / 2) m]"
  by (simp add: find_unique_edges_def Let_def unique_norms_x8 [OF assms] diff_def min_max_def)

theorem unique_edges_one_value_per_bin_witness:
  "(1::real) \<noteq> 0 \<and> (0::real) \<le> 0
   \<and> unique_norms 1 0 (Some (9 / 4)) x8 = [0, 1, 2]
   \<and> find_unique_edges x8 1 0 (Some (9 / 4)) = Inr [0, 1 / 2, 3 / 2, 9 / 4]
   \<and> sorted_wrt (<) [0, 1 / 2, 3 / 2, 9 / 4 :: real]
   \<and> sqrt (norm2 [0, 0]) = 0 \<and> sqrt (norm2 [1, 0]) = 1 \<and> sqrt (norm2 [0, 2]) = 2
   \<and> sqrt (norm2 [0, 1]) = 1
   \<and> in_bin [0, 1 / 2, 3 / 2, 9 / 4] 0 (sqrt (norm2 [0, 0]))
   \<and> in_bin [0, 1 / 2, 3 / 2, 9 / 4] 1 (sqrt (norm2 [1, 0]))
   \<and> in_bin [0, 1 / 2, 3 / 2, 9 / 4] 1 (sqrt (norm2 [0, 1]))
   \<and> in_bin [0, 1 / 2, 3 / 2, 9 / 4] 2 (sqrt (norm2 [0, 2]))
   \<and> \<not> in_bin [0, 1 / 2, 3 / 2, 9 / 4] 2 (sqrt (norm2 [1, 0]))
   \<and> \<not> in_bin [0, 1 / 2, 3 / 2, 9 / 4] 0 (sqrt (norm2 [0, 2]))"
proof -
  have fx: "[0, 1, 2] = unique_norms 1 0 (Some (9 / 4)) x8"
    by (rule unique_norms_x8 [symmetric]) simp
  have es: "find_unique_edges x8 1 0 (Some (9 / 4)) = Inr [0, 1 / 2, 3 / 2, 9 / 4]"
    using find_unique_edges_x8 [of "9 / 4"] by simp
  have z: "(1::real) \<noteq> 0" and xm: "(0::real) \<le> 0" by simp_all
  have fit: "\<forall>x \<in> set x8. \<forall>p \<in> set x. norm2 p / (0.5 * 1) ^ 2 + 0.5 < 2 ^ 63"
    by (simp add: x8_def norm2_x8 power2_eq_square)
  have disc: "\<forall>x \<in> set x8. \<forall>p \<in> set x. \<forall>y \<in> set x8. \<forall>q \<in> set y.
                 \<lfloor>norm2 p / (0.5 * 1) ^ 2 + 0.5\<rfloor> = \<lfloor>norm2 q / (0.5 * 1) ^ 2 + 0.5\<rfloor>
                 \<longrightarrow> norm2 p = norm2 q"
    unfolding x8_def by (simp add: norm2_x8 floors_half)
  have top: "\<forall>m. Some (9 / 4 :: real) = Some m \<longrightarrow>
               0 \<le> m \<and> (\<forall>x \<in> set x8. \<forall>p \<in> set x. norm2 p \<noteq> m ^ 2)"
  proof (intro allI impI)
    fix m :: real assume "Some (9 / 4 :: real) = Some m"
    then have m: "m = 9 / 4" by simp
    show "0 \<le> m \<and> (\<forall>x \<in> set x8. \<forall>p \<in> set x. norm2 p \<noteq> m ^ 2)"
      unfolding m by (simp add: x8_def norm2_x8 power2_eq_square)
  qed
  have two: "[[0, 0], [1, 0]] \<in> set x8" "[0, 0] \<in> set [[0, 0], [1, 0 :: real]]"
    "[1, 0] \<in> set [[0, 0], [1, 0 :: real]]" "norm2 [0, 0] \<noteq> norm2 [1, 0]"
    "(0::real) ^ 2 \<le> norm2 [0, 0]" "le_max (norm2 [0, 0]) (Some (9 / 4))"
    "(0::real) ^ 2 \<le> norm2 [1, 0]" "le_max (norm2 [1, 0]) (Some (9 / 4))"
    by (simp_all add: x8_def norm2_x8 le_max_def power2_eq_square)
  obtain e where e: "find_unique_edges x8 1 0 (Some (9 / 4)) = Inr e"
    and so: "sorted_wrt (<) e"
    and b: "\<forall>i < length [0, 1, 2 :: real]. \<forall>x \<in> set x8. \<forall>p \<in> set x.
              in_bin e i (sqrt (norm2 p)) \<longleftrightarrow> sqrt (norm2 p) = [0, 1, 2] ! i"
    using unique_edges_one_value_per_bin [OF z xm fit disc top two(1,2,1,3,4,5,6,7,8) fx]
    by blast
  from e es have ee: "e = [0, 1 / 2, 3 / 2, 9 / 4]" by simp
  have bb: "in_bin [0, 1 / 2, 3 / 2, 9 / 4] i (sqrt (norm2 p)) \<longleftrightarrow> sqrt (norm2 p) = [0, 1, 2] ! i"
    if "i < 3" "x \<in> set x8" "p \<in> set x" for i x p
    using b that unfolding ee by simp
  have m: "[[0, 0], [1, 0]] \<in> set x8" "[[0, 2], [0, 1]] \<in> set x8" by (simp_all add: x8_def)
  have "in_bin [0, 1 / 2, 3 / 2, 9 / 4] 0 (sqrt (norm2 [0, 0]))"
    using bb [of 0 _ "[0, 0]", OF _ m(1)] by (simp add: norms_x8)
  moreover have "in_bin [0, 1 / 2, 3 / 2, 9 / 4] 1 (sqrt (norm2 [1, 0]))"
    using bb [of 1 _ "[1, 0]", OF _ m(1)] by (simp add: norms_x8)
  moreover have "in_bin [0, 1 / 2, 3 / 2, 9 / 4] 1 (sqrt (norm2 [0, 1]))"
    using bb [of 1 _ "[0, 1]", OF _ m(2)] by (simp add: norms_x8)
  moreover have "in_bin [0, 1 / 2, 3 / 2, 9 / 4] 2 (sqrt (norm2 [0, 2]))"
    using bb [of 2 _ "[0, 2]", OF _ m(2)] by (simp add: norms_x8)
  moreover have "\<not> in_bin [0, 1 / 2, 3 / 2, 9 / 4] 2 (sqrt (norm2 [1, 0]))"
    using bb [of 2 _ "[1, 0]", OF _ m(1)] by (simp add: norms_x8)
  moreover have "\<not> in_bin [0, 1 / 2, 3 / 2, 9 / 4] 0 (sqrt (norm2 [0, 2]))"
    using bb [of 0 _ "[0, 2]", OF _ m(2)] by (simp add: norms_x8)
  moreover have "sorted_wrt (<) [0, 1 / 2, 3 / 2, 9 / 4 :: real]" using so unfolding ee .
  ultimately show ?thesis using fx es by (simp add: norms_x8)
qed

lemma norm2_one: "norm2 [1] = 1" "norm2 [6 / 5] = 36 / 25" "norm2 [2] = 4" "norm2 [0] = 0"
  by (simp_all add: norm2_def power2_eq_square)

lemma norms_one: "sqrt (norm2 [1]) = 1" "sqrt (norm2 [6 / 5]) = 6 / 5"
proof -
  show "sqrt (norm2 [1]) = 1" by (simp add: norm2_one)
  have "norm2 [6 / 5] = (6 / 5) ^ 2" by (simp add: norm2_def)
  then show "sqrt (norm2 [6 / 5]) = 6 / 5" using real_sqrt_abs [of "6 / 5"] by simp
qed

lemma ukey_two: "ukey 2 1 = 1" "ukey 2 (36 / 25) = 1" "ukey 2 4 = 4"
proof -
  have k: "key_fits 2 1" "key_fits 2 (36 / 25)" "key_fits 2 4"
    by (simp_all add: key_fits_def)
  have a: "(1::real) / (0.5 * 2) ^ 2 + 0.5 = 3 / 2" "(36 / 25 :: real) / (0.5 * 2) ^ 2 + 0.5 = 97 / 50"
    "(4::real) / (0.5 * 2) ^ 2 + 0.5 = 9 / 2"
    by simp_all
  have f: "\<lfloor>3 / 2 :: real\<rfloor> = 1" "\<lfloor>97 / 50 :: real\<rfloor> = 1" "\<lfloor>9 / 2 :: real\<rfloor> = 4"
    by simp_all
  show "ukey 2 1 = 1" "ukey 2 (36 / 25) = 1" "ukey 2 4 = 4"
    by (simp_all only: ukey_floor [OF k(1)] ukey_floor [OF k(2)] ukey_floor [OF k(3)] a f)
qed

lemma ukey_overflow: "ukey (1 / 2 ^ 31) 0 = 0" "ukey (1 / 2 ^ 31) 1 = - (2 ^ 63)"
proof -
  have "key_fits (1 / 2 ^ 31) 0" by (simp add: key_fits_def)
  from ukey_floor [OF this] show "ukey (1 / 2 ^ 31) 0 = 0" by simp
  have y: "(1::real) / (0.5 * (1 / 2 ^ 31)) ^ 2 + 0.5 = 2 ^ 64 + 1 / 2"
    by (simp add: power2_eq_square)
  have "\<lfloor>2 ^ 64 + 1 / 2 :: real\<rfloor> = 2 ^ 64"
    by (rule floor_unique) simp_all
  then have "trunc (2 ^ 64 + 1 / 2) = 2 ^ 64" by (simp add: trunc_def)
  then have "int64 (2 ^ 64 + 1 / 2) = - (2 ^ 63)" by (simp add: int64_def)
  then show "ukey (1 / 2 ^ 31) 1 = - (2 ^ 63)" unfolding ukey_def y .
qed

lemma ukey_overflow_num:
  "ukey (1 / 2147483648) 0 = 0" "ukey (1 / 2147483648) 1 = - 9223372036854775808"
  using ukey_overflow by simp_all

text \<open>
  C8 as stated fails. Norms that round to the same multiple of \<open>(x0 / 2)\<^sup>2\<close> count as
  one by design: with \<open>x0 = 2\<close> the norms \<open>1\<close> and \<open>6 / 5\<close> are both in the first bin.
  With \<^verbatim>\<open>xmax\<close> equal to the largest norm, here \<open>2\<close>, the last edge is \<^verbatim>\<open>xmax\<close> itself
  and the last half-open bin holds no norm of the input. With a single norm
  \<^verbatim>\<open>width[-1]\<close> raises \<^verbatim>\<open>IndexError\<close>. With \<open>x0 = 2\<^sup>-\<^sup>3\<^sup>1\<close> the key of the norm \<open>1\<close>
  does not fit in 64 bits, and the edges are not sorted. With \<open>xmin = - 1\<close> the norm \<open>0\<close>
  fails \<^verbatim>\<open>fx2 >= xmin**2\<close> and yet lies in the first bin, with the norm \<open>1\<close>.
\<close>

theorem unique_edges_counterexample:
  "find_unique_edges [[[1], [6 / 5], [2]]] 2 0 None = Inr [0, 3 / 2, 5 / 2]
   \<and> sqrt (norm2 [1]) = 1 \<and> sqrt (norm2 [6 / 5]) = 6 / 5
   \<and> in_bin [0, 3 / 2, 5 / 2] 0 (sqrt (norm2 [1]))
   \<and> in_bin [0, 3 / 2, 5 / 2] 0 (sqrt (norm2 [6 / 5]))
   \<and> find_unique_edges x8 1 0 (Some 2) = Inr [0, 1 / 2, 3 / 2, 2]
   \<and> \<not> in_bin [0, 1 / 2, 3 / 2, 2] 2 (sqrt (norm2 [0, 0]))
   \<and> \<not> in_bin [0, 1 / 2, 3 / 2, 2] 2 (sqrt (norm2 [1, 0]))
   \<and> \<not> in_bin [0, 1 / 2, 3 / 2, 2] 2 (sqrt (norm2 [0, 2]))
   \<and> \<not> in_bin [0, 1 / 2, 3 / 2, 2] 2 (sqrt (norm2 [0, 1]))
   \<and> find_unique_edges [[[0, 0]]] 1 0 None = Inl IndexError
   \<and> find_unique_edges [[[0], [1]]] (1 / 2 ^ 31) 0 None = Inr [0, 1 / 2, - (1 / 2)]
   \<and> find_unique_edges x8 1 (- 1) None = Inr [- 1, 3 / 2, 5 / 2]
   \<and> in_bin [- 1, 3 / 2, 5 / 2] 0 (sqrt (norm2 [0, 0]))
   \<and> in_bin [- 1, 3 / 2, 5 / 2] 0 (sqrt (norm2 [1, 0]))"
proof -
  have "unique_local 2 0 None [[1], [6 / 5], [2]] = [1, 4]"
    by (simp add: unique_local_def unique_by_def norm2_one ukey_two le_max_def)
  then have "unique_norms 2 0 None [[[1], [6 / 5], [2]]] = [1, 2]"
    by (simp add: unique_norms_def unique_by_def ukey_two)
  then have a: "find_unique_edges [[[1], [6 / 5], [2]]] 2 0 None = Inr [0, 3 / 2, 5 / 2]"
    by (simp add: find_unique_edges_def Let_def diff_def min_max_def)
  have b: "find_unique_edges x8 1 0 (Some 2) = Inr [0, 1 / 2, 3 / 2, 2]"
    using find_unique_edges_x8 [of 2] by simp
  have "unique_local 1 0 None [[0, 0]] = [0]"
    by (simp add: unique_local_def unique_by_def norm2_x8 ukey_one le_max_def)
  then have "unique_norms 1 0 None [[[0, 0]]] = [0]"
    by (simp add: unique_norms_def unique_by_def ukey_one)
  then have c: "find_unique_edges [[[0, 0]]] 1 0 None = Inl IndexError"
    by (simp add: find_unique_edges_def Let_def diff_def)
  have "unique_local (1 / 2 ^ 31) 0 None [[0], [1]] = [1, 0]"
    by (simp add: unique_local_def unique_by_def norm2_one ukey_overflow_num le_max_def)
  then have "unique_norms (1 / 2 ^ 31) 0 None [[[0], [1]]] = [1, 0]"
    by (simp add: unique_norms_def unique_by_def ukey_overflow_num)
  then have d: "find_unique_edges [[[0], [1]]] (1 / 2 ^ 31) 0 None = Inr [0, 1 / 2, - (1 / 2)]"
    by (simp add: find_unique_edges_def Let_def diff_def min_max_def)
  have "unique_local 1 (- 1) None [[0, 0], [1, 0]] = [1]"
    "unique_local 1 (- 1) None [[0, 2], [0, 1]] = [1, 4]"
    by (simp_all add: unique_local_def unique_by_def norm2_x8 ukey_one le_max_def)
  then have "unique_norms 1 (- 1) None x8 = [1, 2]"
    by (simp add: unique_norms_def x8_def unique_by_def ukey_one)
  then have e: "find_unique_edges x8 1 (- 1) None = Inr [- 1, 3 / 2, 5 / 2]"
    by (simp add: find_unique_edges_def Let_def diff_def min_max_def)
  from a b c d e show ?thesis by (simp add: norms_one norms_x8 in_bin_def)
qed

end
